theory Spec2Isabelle
  imports Main "HOL-Library.Sublist" "HOL-Library.Multiset"
begin

section \<open>Text primitives of the two scripts\<close>

text \<open>
  The repository holds two variants of one Dockerfile generator:
  \<^verbatim>\<open>create-dockerfile.py\<close>, which edits the template with \<^verbatim>\<open>str.replace\<close>, and
  \<^verbatim>\<open>create-dockerfile copy.py\<close>, which edits it with \<^verbatim>\<open>re.sub\<close>.
  Text is a \<^typ>\<open>string\<close>, the bytes of the text in UTF-8; every pattern of the
  scripts is ASCII, so reading the template as bytes or as code points gives the
  same result.
\<close>

definition nl :: char where
  "nl = CHR 0x0A"

definition backslash :: char where
  "backslash = CHR 0x5C"

text \<open>
  \<^verbatim>\<open>s.replace(old, new)\<close>: the occurrences of \<open>old\<close> are found from the left and do
  not overlap. For the empty \<open>old\<close> Python puts \<open>new\<close> before every character and
  at the end.
\<close>

function replace :: "string \<Rightarrow> string \<Rightarrow> string \<Rightarrow> string" where
  "replace old new s =
     (if old = [] then new @ concat (map (\<lambda>c. c # new) s)
      else if s = [] then []
      else if prefix old s then new @ replace old new (drop (length old) s)
      else hd s # replace old new (tl s))"
  by pat_completeness auto
termination
  by (relation "measure (\<lambda>(old, new, s). length s)") auto

declare replace.simps [simp del]

text \<open>\<^verbatim>\<open>s.split('\n')\<close> and \<^verbatim>\<open>sep.join(xs)\<close>.\<close>

fun split_nl :: "string \<Rightarrow> string list" where
  "split_nl [] = [[]]"
| "split_nl (c # s) =
     (if c = nl then [] # split_nl s
      else (case split_nl s of [] \<Rightarrow> [[c]] | l # ls \<Rightarrow> (c # l) # ls))"

fun join :: "string \<Rightarrow> string list \<Rightarrow> string" where
  "join sep [] = []"
| "join sep [x] = x"
| "join sep (x # y # ys) = x @ sep @ join sep (y # ys)"

text \<open>
  The multi-line patterns of the second variant are all anchored at line starts and
  line ends (\<^verbatim>\<open>^\<close> and \<^verbatim>\<open>$\<close> under \<^verbatim>\<open>re.MULTILINE\<close>), so each is a function on the
  list of lines of the text: the text is split at its newlines, the lines are
  rewritten, and the result is joined again.
\<close>

definition on_lines :: "(string list \<Rightarrow> string list) \<Rightarrow> string \<Rightarrow> string" where
  "on_lines f s = join [nl] (f (split_nl s))"

definition comment :: "string \<Rightarrow> string" where
  "comment l = ''# '' @ l"

section \<open>The options and the file system\<close>

datatype base_os = ubuntu | alpine

datatype language = GOLANG | RUST | PYTHON | NODEJS | JAVA

datatype version_arg = GO_VERSION | NODE_MAJOR | JAVA_VERSION

fun lang_name :: "language \<Rightarrow> string" where
  "lang_name GOLANG = ''GOLANG''"
| "lang_name RUST = ''RUST''"
| "lang_name PYTHON = ''PYTHON''"
| "lang_name NODEJS = ''NODEJS''"
| "lang_name JAVA = ''JAVA''"

fun version_arg_name :: "version_arg \<Rightarrow> string" where
  "version_arg_name GO_VERSION = ''GO_VERSION''"
| "version_arg_name NODE_MAJOR = ''NODE_MAJOR''"
| "version_arg_name JAVA_VERSION = ''JAVA_VERSION''"

text \<open>
  A path holds a readable text file, or something that exists and cannot be read
  (with the text of the exception that \<^verbatim>\<open>open\<close> raises), or nothing. A path may
  refuse to be opened for writing, again with the text of the exception.
  \<open>stdout\<close> is the list of the strings printed, one per \<^verbatim>\<open>print\<close> call.
\<close>

datatype node = File string | Unreadable string

record world =
  files :: "string \<rightharpoonup> node"
  unwritable :: "string \<rightharpoonup> string"
  stdout :: "string list"

definition print :: "string \<Rightarrow> world \<Rightarrow> world" where
  "print line w = w\<lparr>stdout := stdout w @ [line]\<rparr>"

definition write_text :: "string \<Rightarrow> string \<Rightarrow> world \<Rightarrow> world" where
  "write_text path content w = w\<lparr>files := (files w)(path \<mapsto> File content)\<rparr>"

definition bool_lower :: "bool \<Rightarrow> string" where
  "bool_lower b = (if b then ''true'' else ''false'')"

section \<open>First variant: \<^verbatim>\<open>create-dockerfile.py\<close>\<close>

text \<open>The namespace that \<^verbatim>\<open>parse_arguments\<close> returns (argparse itself is not modelled).\<close>

record args =
  base :: base_os
  golang :: bool
  go_version :: string
  rust :: bool
  python :: bool
  nodejs :: bool
  node_version :: string
  java :: bool
  java_version :: string
  output_file :: string
  template :: string
  all :: bool

text \<open>Lines 80 to 92: the base OS selection.\<close>

definition select_base :: "base_os \<Rightarrow> string \<Rightarrow> string" where
  \<open>select_base b content =
     (case b of
        ubuntu \<Rightarrow>
          replace ''# RUN apt-get update'' ''RUN apt-get update''
            (replace ''#FROM ubuntu:22.04'' ''FROM ubuntu:22.04'' content)
      | alpine \<Rightarrow>
          replace ''# For Alpine, use "/bin/ash" instead of "/bin/bash"'' ''CMD ["/bin/ash"]''
            (replace ''CMD ["/bin/bash"]'' ''# CMD ["/bin/bash"]''
              (replace ''# RUN apk update'' ''RUN apk update''
                (replace ''# FROM alpine:latest'' ''FROM alpine:latest''
                  (replace ''FROM ubuntu:22.04'' ''# FROM ubuntu:22.04'' content)))))\<close>

text \<open>Lines 96 and 97: \<^verbatim>\<open>--all\<close> switches every language on.\<close>

definition enable_all :: "args \<Rightarrow> args" where
  "enable_all a =
     (if all a
      then a\<lparr>golang := True, rust := True, python := True, nodejs := True, java := True\<rparr>
      else a)"

text \<open>Lines 100 to 130: one block per language, in the order Go, Rust, Python, Node.js, Java.\<close>

definition set_flag :: "string \<Rightarrow> bool \<Rightarrow> string \<Rightarrow> string" where
  "set_flag name enabled content =
     (if enabled
      then replace (''ARG INSTALL_'' @ name @ ''=true'') (''ARG INSTALL_'' @ name @ ''=true'') content
      else replace (''ARG INSTALL_'' @ name @ ''=true'') (''ARG INSTALL_'' @ name @ ''=false'') content)"

fun configure :: "args \<Rightarrow> language \<Rightarrow> string \<Rightarrow> string" where
  "configure a GOLANG content =
     (if golang a
      then replace ''ARG GO_VERSION=1.22.2'' (''ARG GO_VERSION='' @ go_version a)
             (set_flag ''GOLANG'' True content)
      else set_flag ''GOLANG'' False content)"
| "configure a RUST content = set_flag ''RUST'' (rust a) content"
| "configure a PYTHON content = set_flag ''PYTHON'' (python a) content"
| "configure a NODEJS content =
     (if nodejs a
      then replace ''ARG NODE_MAJOR=20'' (''ARG NODE_MAJOR='' @ node_version a)
             (set_flag ''NODEJS'' True content)
      else set_flag ''NODEJS'' False content)"
| "configure a JAVA content =
     (if java a
      then replace ''ARG JAVA_VERSION=17'' (''ARG JAVA_VERSION='' @ java_version a)
             (set_flag ''JAVA'' True content)
      else set_flag ''JAVA'' False content)"

definition source_order :: "language list" where
  "source_order = [GOLANG, RUST, PYTHON, NODEJS, JAVA]"

text \<open>Lines 79 to 130: the text written for a template text.\<close>

definition transform :: "args \<Rightarrow> string \<Rightarrow> string" where
  "transform a content =
     fold (configure (enable_all a)) source_order (select_base (base a) content)"

text \<open>Lines 136 to 156: what is printed after the file is written.\<close>

definition capitalize_base :: "base_os \<Rightarrow> string" where
  "capitalize_base b = (case b of ubuntu \<Rightarrow> ''Ubuntu'' | alpine \<Rightarrow> ''Alpine'')"

definition languages :: "args \<Rightarrow> string list" where
  "languages a =
     (if golang a then [''Go '' @ go_version a] else []) @
     (if rust a then [''Rust''] else []) @
     (if python a then [''Python''] else []) @
     (if nodejs a then [''Node.js '' @ node_version a] else []) @
     (if java a then [''Java '' @ java_version a] else [])"

definition clipboard :: string where
  "clipboard = [CHR 0xF0, CHR 0x9F, CHR 0x93, CHR 0x8B]"

definition package :: string where
  "package = [CHR 0xF0, CHR 0x9F, CHR 0x93, CHR 0xA6]"

definition report :: "args \<Rightarrow> string list" where
  "report a =
     [''Dockerfile successfully generated at: '' @ output_file a,
      ''Base OS: '' @ capitalize_base (base a),
      (if languages a \<noteq> [] then ''Included languages: '' @ join '', '' (languages a)
       else ''No programming languages were enabled''),
      [nl] @ clipboard @ '' Next Steps:'',
      ''1. Review your Dockerfile: cat '' @ output_file a,
      ''2. Build your Docker image: docker build -t my-image -f '' @ output_file a @ '' .'',
      ''3. Run your Docker container: docker run -it --rm my-image'']"

text \<open>
  \<^verbatim>\<open>generate_dockerfile\<close> returns the exit status with the world it leaves. An
  exception that nothing catches (the template exists and cannot be read, the
  output cannot be opened) ends the process with status 1 and prints nothing to
  standard output.
\<close>

definition generate_dockerfile :: "args \<Rightarrow> world \<Rightarrow> nat \<times> world" where
  "generate_dockerfile a w =
     (case files w (template a) of
        None \<Rightarrow> (1, print (''Error: Template file not found at '' @ template a) w)
      | Some (Unreadable e) \<Rightarrow> (1, w)
      | Some (File content) \<Rightarrow>
          (case unwritable w (output_file a) of
             Some e \<Rightarrow> (1, w)
           | None \<Rightarrow>
               (0, fold print (report (enable_all a))
                     (write_text (output_file a) (transform a content) w))))"

definition display_help_message :: "string list" where
  \<open>display_help_message =
     [[nl] @ package @ '' Dockerfile Generator '' @ package,
      ''========================='',
      ''This tool helps you create customized Dockerfiles for your projects.'',
      [nl] @ ''Examples:'',
      ''  1. Create a Ubuntu-based Dockerfile with Python:'',
      ''     python3 create-dockerfile.py --base ubuntu --python'',
      [nl] @ ''  2. Create an Alpine-based Dockerfile with Go and Node.js:'',
      ''     python3 create-dockerfile.py --base alpine --golang --nodejs'',
      [nl] @ ''  3. Create a Dockerfile with all languages:'',
      ''     python3 create-dockerfile.py --all'',
      [nl] @ ''  4. Specify custom versions and output file:'',
      ''     python3 create-dockerfile.py --golang --go-version 1.21.0 --nodejs --node-version 18 --output MyDockerfile'',
      [nl] @ ''For more options, run: python3 create-dockerfile.py --help'',
      ''========================='' @ [nl]]\<close>

text \<open>
  \<^verbatim>\<open>main\<close>, given \<^verbatim>\<open>len(sys.argv)\<close> and the parsed arguments: with no language
  switch and at most one argument on the command line the help screen is shown and
  the process exits with status 0.
\<close>

definition main :: "nat \<Rightarrow> args \<Rightarrow> world \<Rightarrow> nat \<times> world" where
  "main argc a w =
     (if \<not> (golang a \<or> rust a \<or> python a \<or> nodejs a \<or> java a \<or> all a) \<and> argc \<le> 2
      then (0, fold print display_help_message w)
      else generate_dockerfile a w)"

section \<open>Second variant: \<^verbatim>\<open>create-dockerfile copy.py\<close>\<close>

record copy_args =
  c_output :: string
  c_os :: base_os
  c_golang :: bool
  c_rust :: bool
  c_python :: bool
  c_nodejs :: bool
  c_java :: bool
  c_go_version :: string
  c_node_version :: string
  c_java_version :: string
  c_template :: string

text \<open>
  \<^verbatim>\<open>read_template\<close> and \<^verbatim>\<open>write_dockerfile\<close>: on the left the exit status with the
  world at \<^verbatim>\<open>sys.exit(1)\<close>.
\<close>

definition read_template :: "string \<Rightarrow> world \<Rightarrow> (nat \<times> world) + string" where
  "read_template template_path w =
     (case files w template_path of
        None \<Rightarrow> Inl (1, print (''Error: Template file not found at '' @ template_path) w)
      | Some (Unreadable e) \<Rightarrow> Inl (1, print (''Error reading template: '' @ e) w)
      | Some (File content) \<Rightarrow> Inr content)"

definition write_dockerfile :: "string \<Rightarrow> string \<Rightarrow> world \<Rightarrow> (nat \<times> world) + world" where
  "write_dockerfile content path w =
     (case unwritable w path of
        Some e \<Rightarrow> Inl (1, print (''Error writing to '' @ path @ '': '' @ e) w)
      | None \<Rightarrow> Inr (write_text path content w))"

text \<open>
  \<^verbatim>\<open>re.sub(r'^FROM ubuntu.*?^$', ..., flags=re.MULTILINE | re.DOTALL)\<close>: a match
  starts at a line that begins with \<^verbatim>\<open>FROM ubuntu\<close> and ends at the start of the
  first empty line after it (the only places where both \<^verbatim>\<open>^\<close> and \<^verbatim>\<open>$\<close> hold; the
  empty end of a text that ends in a newline is one). The matched text ends in a
  newline, so the lambda, which comments every piece of its split, also turns the
  empty line into \<^verbatim>\<open># \<close>. The search goes on behind the empty line. Without an
  empty line behind it a \<^verbatim>\<open>FROM ubuntu\<close> line does not match.
\<close>

function comment_ubuntu :: "string list \<Rightarrow> string list" where
  "comment_ubuntu [] = []"
| "comment_ubuntu (l # ls) =
     (if prefix ''FROM ubuntu'' l \<and> [] \<in> set ls
      then map comment (l # takeWhile (\<lambda>x. x \<noteq> []) ls) @
           comment [] # comment_ubuntu (tl (dropWhile (\<lambda>x. x \<noteq> []) ls))
      else l # comment_ubuntu ls)"
  by pat_completeness auto
termination
proof (relation "measure length")
  fix l :: string and ls :: "string list"
  have "length (tl (dropWhile (\<lambda>x. x \<noteq> []) ls)) \<le> length ls"
    using length_dropWhile_le [of "\<lambda>x. x \<noteq> []" ls] by simp
  then show "(tl (dropWhile (\<lambda>x. x \<noteq> []) ls), l # ls) \<in> measure length"
    by simp
qed simp_all

text \<open>
  \<^verbatim>\<open>re.sub(r'^# (FROM alpine.*?)$', r'\1', ...)\<close> and the same for
  \<^verbatim>\<open>RUN apk update\<close>: the lazy \<^verbatim>\<open>.*?\<close> stops at the first line end, so a line that
  begins with \<^verbatim>\<open># \<close> and the marker loses its first two characters.
\<close>

definition uncomment_line :: "string \<Rightarrow> string \<Rightarrow> string" where
  "uncomment_line marker l = (if prefix (''# '' @ marker) l then drop 2 l else l)"

definition configure_base_os :: "string \<Rightarrow> base_os \<Rightarrow> string" where
  \<open>configure_base_os content b =
     (if b = alpine
      then replace ''CMD ["/bin/bash"]'' ''CMD ["/bin/ash"]''
             (on_lines (map (uncomment_line ''RUN apk update''))
               (on_lines (map (uncomment_line ''FROM alpine''))
                 (on_lines comment_ubuntu content)))
      else content)\<close>

text \<open>
  \<^verbatim>\<open>re.sub(rf'ARG {version_arg}=.*', f'ARG {version_arg}={version_value}', content)\<close>:
  on every line the first occurrence of the key and the rest of the line (\<^verbatim>\<open>.\<close> is
  any character but the newline) are replaced.
\<close>

fun rewrite_assignment :: "string \<Rightarrow> string \<Rightarrow> string \<Rightarrow> string" where
  "rewrite_assignment key new [] = []"
| "rewrite_assignment key new (c # l) =
     (if prefix key (c # l) then new else c # rewrite_assignment key new l)"

text \<open>
  The pattern of line 133, under \<^verbatim>\<open>re.MULTILINE | re.DOTALL\<close>: a match starts at a
  line that begins with the commented \<^verbatim>\<open>RUN if\<close> test of the language and ends
  with the first later line that is exactly \<^verbatim>\<open>#     fi\<close>; group 1 is the match
  without its first two characters. The search goes on behind that line.
\<close>

definition block_start :: "language \<Rightarrow> string" where
  \<open>block_start lang =
     ''# RUN if [ "$INSTALL_'' @ lang_name lang @ ''" = "true" ]; then '' @ [backslash]\<close>

definition block_end :: string where
  "block_end = ''#     fi''"

function uncomment_block :: "string \<Rightarrow> string list \<Rightarrow> string list" where
  "uncomment_block start [] = []"
| "uncomment_block start (l # ls) =
     (if prefix start l \<and> block_end \<in> set ls
      then drop 2 l # takeWhile (\<lambda>x. x \<noteq> block_end) ls @
           block_end # uncomment_block start (tl (dropWhile (\<lambda>x. x \<noteq> block_end) ls))
      else l # uncomment_block start ls)"
  by pat_completeness auto
termination
proof (relation "measure (\<lambda>(start, ls). length ls)")
  fix start l :: string and ls :: "string list"
  have "length (tl (dropWhile (\<lambda>x. x \<noteq> block_end) ls)) \<le> length ls"
    using length_dropWhile_le [of "\<lambda>x. x \<noteq> block_end" ls] by simp
  then show "((start, tl (dropWhile (\<lambda>x. x \<noteq> block_end) ls)), (start, l # ls))
               \<in> measure (\<lambda>(start, ls). length ls)"
    by simp
qed simp_all

text \<open>
  The replacement of the version pattern, \<^verbatim>\<open>f'ARG {version_arg}={version_value}'\<close>, is
  a replacement template of \<^verbatim>\<open>re\<close>. A template without a backslash is written as it
  is. Otherwise \<^verbatim>\<open>re\<close> compiles it (\<^verbatim>\<open>parse_template\<close> of Python 3.11) before it
  looks at the text, and an escape that it rejects raises \<^verbatim>\<open>re.error\<close> or
  \<^verbatim>\<open>IndexError\<close>, whether the pattern matches or not.

  The tokenizer of \<^verbatim>\<open>re\<close> reads a backslash together with the character behind it;
  a backslash at the end of the template is an error.
\<close>

datatype token = Ch char | Esc char

fun tokens :: "string \<Rightarrow> token list option" where
  "tokens [] = Some []"
| "tokens [c] = (if c = backslash then None else Some [Ch c])"
| "tokens (c # d # s) =
     (if c = backslash then map_option (Cons (Esc d)) (tokens s)
      else map_option (Cons (Ch c)) (tokens (d # s)))"

fun token_text :: "token \<Rightarrow> string" where
  "token_text (Ch c) = [c]"
| "token_text (Esc c) = [backslash, c]"

definition octdigits :: string where
  "octdigits = ''01234567''"

definition digits :: string where
  "digits = ''0123456789''"

definition asciiletters :: string where
  "asciiletters = ''abcdefghijklmnopqrstuvwxyzABCDEFGHIJKLMNOPQRSTUVWXYZ''"

text \<open>\<^verbatim>\<open>ESCAPES\<close> of \<^verbatim>\<open>re._parser\<close>: the escapes that stand for one character.\<close>

definition escapes :: "char \<Rightarrow> char option" where
  "escapes = map_of
     [(CHR ''a'', CHR 0x07), (CHR ''b'', CHR 0x08), (CHR ''f'', CHR 0x0C), (CHR ''n'', CHR 0x0A),
      (CHR ''r'', CHR 0x0D), (CHR ''t'', CHR 0x09), (CHR ''v'', CHR 0x0B),
      (backslash, backslash)]"

text \<open>
  \<^verbatim>\<open>int(digits, 8)\<close>, and \<^verbatim>\<open>chr(n)\<close> for \<open>n\<close> below 256 as the bytes that UTF-8 gives
  the character.
\<close>

definition octal :: "string \<Rightarrow> nat" where
  "octal ds = foldl (\<lambda>n d. 8 * n + (of_char d - 48)) 0 ds"

definition chr_utf8 :: "nat \<Rightarrow> string" where
  "chr_utf8 n =
     (if n < 128 then [char_of n] else [char_of (192 + n div 64), char_of (128 + n mod 64)])"

text \<open>The octal digits, at most \<open>n\<close>, at the head of the tokens.\<close>

fun take_octal :: "nat \<Rightarrow> token list \<Rightarrow> string" where
  "take_octal (Suc n) (Ch d # ts) = (if d \<in> set octdigits then d # take_octal n ts else [])"
| "take_octal n ts = []"

text \<open>
  A group reference \<^verbatim>\<open>\g<name>\<close>. The patterns of the version rewrite have no group,
  so a name that is an identifier is an unknown group (\<^verbatim>\<open>IndexError\<close>), and any other
  name has to be one that \<^verbatim>\<open>int\<close> reads as 0, the whole match: blanks, a sign,
  then zeros with single underscores between them, at most 4300 digits (the limit
  of \<^verbatim>\<open>int\<close> on the length of a numeral), then blanks. \<^verbatim>\<open>int\<close> reads the blanks and the
  decimal digits of every script; of the digits only the zeros matter here, since any
  other digit makes a reference to a group that does not exist. Below are the
  blanks and the zeros beyond ASCII of Unicode 14, which Python 3.11 uses.
\<close>

definition ascii_spaces :: "string list" where
  "ascii_spaces = [[CHR 0x20], [CHR 0x09], [CHR 0x0A], [CHR 0x0B], [CHR 0x0C], [CHR 0x0D]]"

definition unicode_spaces :: "string list" where
  "unicode_spaces =
     [[CHR 0xC2, CHR 0x85], [CHR 0xC2, CHR 0xA0], [CHR 0xE1, CHR 0x9A, CHR 0x80],
      [CHR 0xE2, CHR 0x80, CHR 0x80], [CHR 0xE2, CHR 0x80, CHR 0x81],
      [CHR 0xE2, CHR 0x80, CHR 0x82], [CHR 0xE2, CHR 0x80, CHR 0x83],
      [CHR 0xE2, CHR 0x80, CHR 0x84], [CHR 0xE2, CHR 0x80, CHR 0x85],
      [CHR 0xE2, CHR 0x80, CHR 0x86], [CHR 0xE2, CHR 0x80, CHR 0x87],
      [CHR 0xE2, CHR 0x80, CHR 0x88], [CHR 0xE2, CHR 0x80, CHR 0x89],
      [CHR 0xE2, CHR 0x80, CHR 0x8A], [CHR 0xE2, CHR 0x80, CHR 0xA8],
      [CHR 0xE2, CHR 0x80, CHR 0xA9], [CHR 0xE2, CHR 0x80, CHR 0xAF],
      [CHR 0xE2, CHR 0x81, CHR 0x9F], [CHR 0xE3, CHR 0x80, CHR 0x80]]"

definition unicode_zeros :: "string list" where
  "unicode_zeros =
     [[CHR 0xD9, CHR 0xA0], [CHR 0xDB, CHR 0xB0], [CHR 0xDF, CHR 0x80],
      [CHR 0xE0, CHR 0xA5, CHR 0xA6], [CHR 0xE0, CHR 0xA7, CHR 0xA6],
      [CHR 0xE0, CHR 0xA9, CHR 0xA6], [CHR 0xE0, CHR 0xAB, CHR 0xA6],
      [CHR 0xE0, CHR 0xAD, CHR 0xA6], [CHR 0xE0, CHR 0xAF, CHR 0xA6],
      [CHR 0xE0, CHR 0xB1, CHR 0xA6], [CHR 0xE0, CHR 0xB3, CHR 0xA6],
      [CHR 0xE0, CHR 0xB5, CHR 0xA6], [CHR 0xE0, CHR 0xB7, CHR 0xA6],
      [CHR 0xE0, CHR 0xB9, CHR 0x90], [CHR 0xE0, CHR 0xBB, CHR 0x90],
      [CHR 0xE0, CHR 0xBC, CHR 0xA0], [CHR 0xE1, CHR 0x81, CHR 0x80],
      [CHR 0xE1, CHR 0x82, CHR 0x90], [CHR 0xE1, CHR 0x9F, CHR 0xA0],
      [CHR 0xE1, CHR 0xA0, CHR 0x90], [CHR 0xE1, CHR 0xA5, CHR 0x86],
      [CHR 0xE1, CHR 0xA7, CHR 0x90], [CHR 0xE1, CHR 0xAA, CHR 0x80],
      [CHR 0xE1, CHR 0xAA, CHR 0x90], [CHR 0xE1, CHR 0xAD, CHR 0x90],
      [CHR 0xE1, CHR 0xAE, CHR 0xB0], [CHR 0xE1, CHR 0xB1, CHR 0x80],
      [CHR 0xE1, CHR 0xB1, CHR 0x90], [CHR 0xEA, CHR 0x98, CHR 0xA0],
      [CHR 0xEA, CHR 0xA3, CHR 0x90], [CHR 0xEA, CHR 0xA4, CHR 0x80],
      [CHR 0xEA, CHR 0xA7, CHR 0x90], [CHR 0xEA, CHR 0xA7, CHR 0xB0],
      [CHR 0xEA, CHR 0xA9, CHR 0x90], [CHR 0xEA, CHR 0xAF, CHR 0xB0],
      [CHR 0xEF, CHR 0xBC, CHR 0x90], [CHR 0xF0, CHR 0x90, CHR 0x92, CHR 0xA0],
      [CHR 0xF0, CHR 0x90, CHR 0xB4, CHR 0xB0], [CHR 0xF0, CHR 0x91, CHR 0x81, CHR 0xA6],
      [CHR 0xF0, CHR 0x91, CHR 0x83, CHR 0xB0], [CHR 0xF0, CHR 0x91, CHR 0x84, CHR 0xB6],
      [CHR 0xF0, CHR 0x91, CHR 0x87, CHR 0x90], [CHR 0xF0, CHR 0x91, CHR 0x8B, CHR 0xB0],
      [CHR 0xF0, CHR 0x91, CHR 0x91, CHR 0x90], [CHR 0xF0, CHR 0x91, CHR 0x93, CHR 0x90],
      [CHR 0xF0, CHR 0x91, CHR 0x99, CHR 0x90], [CHR 0xF0, CHR 0x91, CHR 0x9B, CHR 0x80],
      [CHR 0xF0, CHR 0x91, CHR 0x9C, CHR 0xB0], [CHR 0xF0, CHR 0x91, CHR 0xA3, CHR 0xA0],
      [CHR 0xF0, CHR 0x91, CHR 0xA5, CHR 0x90], [CHR 0xF0, CHR 0x91, CHR 0xB1, CHR 0x90],
      [CHR 0xF0, CHR 0x91, CHR 0xB5, CHR 0x90], [CHR 0xF0, CHR 0x91, CHR 0xB6, CHR 0xA0],
      [CHR 0xF0, CHR 0x96, CHR 0xA9, CHR 0xA0], [CHR 0xF0, CHR 0x96, CHR 0xAB, CHR 0x80],
      [CHR 0xF0, CHR 0x96, CHR 0xAD, CHR 0x90], [CHR 0xF0, CHR 0x9D, CHR 0x9F, CHR 0x8E],
      [CHR 0xF0, CHR 0x9D, CHR 0x9F, CHR 0x98], [CHR 0xF0, CHR 0x9D, CHR 0x9F, CHR 0xA2],
      [CHR 0xF0, CHR 0x9D, CHR 0x9F, CHR 0xAC], [CHR 0xF0, CHR 0x9D, CHR 0x9F, CHR 0xB6],
      [CHR 0xF0, CHR 0x9E, CHR 0x85, CHR 0x80], [CHR 0xF0, CHR 0x9E, CHR 0x8B, CHR 0xB0],
      [CHR 0xF0, CHR 0x9E, CHR 0xA5, CHR 0x90], [CHR 0xF0, CHR 0x9F, CHR 0xAF, CHR 0xB0]]"

text \<open>The characters of a text in UTF-8: a byte and the continuation bytes behind it.\<close>

definition continuation :: "char \<Rightarrow> bool" where
  "continuation c = (128 \<le> (of_char c :: nat) \<and> (of_char c :: nat) < 192)"

definition utf8_chars :: "string \<Rightarrow> string list" where
  "utf8_chars s =
     foldr (\<lambda>c r. case r of
                     [] \<Rightarrow> [[c]]
                   | x # xs \<Rightarrow> if continuation (hd x) then (c # x) # xs else [c] # r) s []"

datatype name_char = Blank | Zero | Sign | Underscore | Other

definition name_char_of :: "string \<Rightarrow> name_char" where
  "name_char_of u =
     (if u \<in> set ascii_spaces \<or> u \<in> set unicode_spaces then Blank
      else if u = ''0'' \<or> u \<in> set unicode_zeros then Zero
      else if u = ''+'' \<or> u = ''-'' then Sign
      else if u = ''_'' then Underscore
      else Other)"

definition group_zero :: "string \<Rightarrow> bool" where
  "group_zero name =
     (let cs = dropWhile (\<lambda>x. x = Blank) (map name_char_of (utf8_chars name));
          ds = (case cs of Sign # r \<Rightarrow> r | _ \<Rightarrow> cs);
          body = takeWhile (\<lambda>x. x = Zero \<or> x = Underscore) ds;
          rest = dropWhile (\<lambda>x. x = Zero \<or> x = Underscore) ds
      in body \<noteq> [] \<and> hd body = Zero \<and> last body = Zero \<and>
         (Underscore, Underscore) \<notin> set (zip body (tl body)) \<and>
         length (filter (\<lambda>x. x = Zero) body) \<le> 4300 \<and>
         dropWhile (\<lambda>x. x = Blank) rest = [])"

text \<open>
  \<^verbatim>\<open>parse_template\<close>: the template as a list of literal characters and references to
  the whole match, or \<open>None\<close> where Python raises. After \<^verbatim>\<open>\0\<close> up to two octal digits
  are read. Another digit starts a reference to a group from 1 on, which the
  pattern does not have, unless three octal digits give a character up to
  \<^verbatim>\<open>\377\<close>. A letter that is no escape is rejected, and any other character is kept
  with its backslash.
\<close>

datatype item = Lit char | Whole

function parse_template :: "token list \<Rightarrow> item list option" where
  "parse_template [] = Some []"
| "parse_template (Ch c # ts) = map_option (Cons (Lit c)) (parse_template ts)"
| "parse_template (Esc c # ts) =
     (if c = CHR ''g'' then
        (case ts of
           [] \<Rightarrow> None
         | t # ts' \<Rightarrow>
             if t = Ch (CHR ''<'') \<and> Ch (CHR ''>'') \<in> set ts' \<and>
                group_zero (concat (map token_text (takeWhile (\<lambda>x. x \<noteq> Ch (CHR ''>'')) ts')))
             then map_option (Cons Whole)
                    (parse_template (tl (dropWhile (\<lambda>x. x \<noteq> Ch (CHR ''>'')) ts')))
             else None)
      else if c = CHR ''0'' then
        map_option (append (map Lit (chr_utf8 (octal (take_octal 2 ts) mod 256))))
          (parse_template (drop (length (take_octal 2 ts)) ts))
      else if c \<in> set digits then
        (if c \<in> set octdigits \<and> length (take_octal 2 ts) = 2 \<and>
            octal (c # take_octal 2 ts) \<le> 255
         then map_option (append (map Lit (chr_utf8 (octal (c # take_octal 2 ts)))))
                (parse_template (drop 2 ts))
         else None)
      else
        (case escapes c of
           Some x \<Rightarrow> map_option (Cons (Lit x)) (parse_template ts)
         | None \<Rightarrow>
             if c \<in> set asciiletters then None
             else map_option (append [Lit backslash, Lit c]) (parse_template ts)))"
  by pat_completeness auto
termination
proof -
  have "length (dropWhile (\<lambda>x. x \<noteq> Ch (CHR ''>'')) ts') - Suc 0 \<le> Suc (length ts')" for ts'
    using length_dropWhile_le [of "\<lambda>x. x \<noteq> Ch (CHR ''>'')" ts'] by simp
  then show ?thesis
    by (relation "measure length") (simp_all add: less_Suc_eq_le)
qed

definition compile_repl :: "string \<Rightarrow> item list option" where
  "compile_repl repl = (case tokens repl of None \<Rightarrow> None | Some ts \<Rightarrow> parse_template ts)"

text \<open>\<^verbatim>\<open>expand_template\<close>: the text that replaces the match \<open>m\<close>.\<close>

fun expand :: "item list \<Rightarrow> string \<Rightarrow> string" where
  "expand [] m = []"
| "expand (Lit c # items) m = c # expand items m"
| "expand (Whole # items) m = m @ expand items m"

fun rewrite_template :: "string \<Rightarrow> item list \<Rightarrow> string \<Rightarrow> string" where
  "rewrite_template key items [] = []"
| "rewrite_template key items (c # l) =
     (if prefix key (c # l) then expand items (c # l) else c # rewrite_template key items l)"

text \<open>
  \<^verbatim>\<open>re.sub(rf'ARG {version_arg}=.*', repl, content)\<close>, with the key
  \<^verbatim>\<open>ARG {version_arg}=\<close> of the pattern: on the left the exception raised for the
  template.
\<close>

datatype failure = TemplateError

definition sub_assignment :: "string \<Rightarrow> string \<Rightarrow> string \<Rightarrow> failure + string" where
  "sub_assignment key repl content =
     (if backslash \<in> set repl
      then (case compile_repl repl of
              None \<Rightarrow> Inl TemplateError
            | Some items \<Rightarrow> Inr (on_lines (map (rewrite_template key items)) content))
      else Inr (on_lines (map (rewrite_assignment key repl)) content))"

text \<open>
  \<^verbatim>\<open>configure_language\<close>. The language and the version argument are the names that
  \<^verbatim>\<open>main\<close> passes, none of which holds a character that is special in a pattern or
  in a template. An empty version value is false for Python, so it leaves the
  version alone.
\<close>

definition configure_language ::
  "string \<Rightarrow> language \<Rightarrow> bool \<Rightarrow> version_arg option \<Rightarrow> string option \<Rightarrow> failure + string"
where
  "configure_language content lang install version_arg version_value =
     (let install_value = (if install then ''true'' else ''false'');
          content1 = replace (''ARG INSTALL_'' @ lang_name lang @ ''=true'')
                       (''ARG INSTALL_'' @ lang_name lang @ ''='' @ install_value) content;
          uncomment = (\<lambda>c. if install then on_lines (uncomment_block (block_start lang)) c else c)
      in case (version_arg, version_value) of
           (Some va, Some vv) \<Rightarrow>
             if vv = [] then Inr (uncomment content1)
             else (case sub_assignment (''ARG '' @ version_arg_name va @ ''='')
                          (''ARG '' @ version_arg_name va @ ''='' @ vv) content1 of
                     Inl e \<Rightarrow> Inl e
                   | Inr content2 \<Rightarrow> Inr (uncomment content2))
         | _ \<Rightarrow> Inr (uncomment content1))"

text \<open>The call that \<^verbatim>\<open>main\<close> makes for each language (lines 151 to 155).\<close>

fun configure_call :: "copy_args \<Rightarrow> language \<Rightarrow> string \<Rightarrow> failure + string" where
  "configure_call a GOLANG content =
     configure_language content GOLANG (c_golang a) (Some GO_VERSION) (Some (c_go_version a))"
| "configure_call a RUST content = configure_language content RUST (c_rust a) None None"
| "configure_call a PYTHON content = configure_language content PYTHON (c_python a) None None"
| "configure_call a NODEJS content =
     configure_language content NODEJS (c_nodejs a) (Some NODE_MAJOR) (Some (c_node_version a))"
| "configure_call a JAVA content =
     configure_language content JAVA (c_java a) (Some JAVA_VERSION) (Some (c_java_version a))"

fun configure_all :: "copy_args \<Rightarrow> language list \<Rightarrow> string \<Rightarrow> failure + string" where
  "configure_all a [] content = Inr content"
| "configure_all a (lang # langs) content =
     (case configure_call a lang content of
        Inl e \<Rightarrow> Inl e
      | Inr content' \<Rightarrow> configure_all a langs content')"

text \<open>Lines 148 to 155: the text written for a template text.\<close>

definition copy_transform :: "copy_args \<Rightarrow> string \<Rightarrow> failure + string" where
  "copy_transform a content =
     configure_all a source_order (configure_base_os content (c_os a))"

definition os_name :: "base_os \<Rightarrow> string" where
  "os_name b = (case b of ubuntu \<Rightarrow> ''ubuntu'' | alpine \<Rightarrow> ''alpine'')"

definition summary :: "copy_args \<Rightarrow> string list" where
  "summary a =
     [''Dockerfile generated at '' @ c_output a,
      [nl] @ ''Configuration:'',
      ''  Base OS: '' @ os_name (c_os a),
      ''  Golang: '' @ bool_lower (c_golang a) @ '' (version '' @ c_go_version a @ '')'',
      ''  Rust: '' @ bool_lower (c_rust a),
      ''  Python: '' @ bool_lower (c_python a),
      ''  Node.js: '' @ bool_lower (c_nodejs a) @ '' (version '' @ c_node_version a @ '')'',
      ''  Java: '' @ bool_lower (c_java a) @ '' (version '' @ c_java_version a @ '')'']"

definition copy_main :: "copy_args \<Rightarrow> world \<Rightarrow> failure + nat \<times> world" where
  "copy_main a w =
     (case read_template (c_template a) w of
        Inl stop \<Rightarrow> Inr stop
      | Inr content \<Rightarrow>
          (case copy_transform a content of
             Inl e \<Rightarrow> Inl e
           | Inr content' \<Rightarrow>
               (case write_dockerfile content' (c_output a) w of
                  Inl stop \<Rightarrow> Inr stop
                | Inr w' \<Rightarrow> Inr (0, fold print (summary a) w'))))"

section \<open>Notions used to state and prove the properties\<close>

text \<open>
  \<open>starts_in u w\<close>: some non-empty suffix of \<open>u\<close> is a prefix of \<open>w\<close> or has \<open>w\<close> as
  a prefix, that is, an occurrence of \<open>w\<close> can begin inside \<open>u\<close> when \<open>u\<close> is
  followed by a suitable text. Two rewrites whose markers and replacement texts
  cannot begin inside one another do not interfere.
\<close>

fun starts_in :: "string \<Rightarrow> string \<Rightarrow> bool" where
  "starts_in [] w = False"
| "starts_in (x # u) w = (prefix (x # u) w \<or> prefix w (x # u) \<or> starts_in u w)"

text \<open>Two replacements made in one pass from the left, the first pattern tried first.\<close>

function replace2 :: "string \<Rightarrow> string \<Rightarrow> string \<Rightarrow> string \<Rightarrow> string \<Rightarrow> string" where
  "replace2 a b c d s =
     (if a = [] \<or> c = [] \<or> s = [] then []
      else if prefix a s then b @ replace2 a b c d (drop (length a) s)
      else if prefix c s then d @ replace2 a b c d (drop (length c) s)
      else hd s # replace2 a b c d (tl s))"
  by pat_completeness auto
termination
  by (relation "measure (\<lambda>(a, b, c, d, s). length s)") auto

declare replace2.simps [simp del]

text \<open>A text is a list of proper lines when it is not empty and no line holds a newline.\<close>

definition proper_lines :: "string list \<Rightarrow> bool" where
  "proper_lines ls \<longleftrightarrow> ls \<noteq> [] \<and> (\<forall>l \<in> set ls. nl \<notin> set l)"

text \<open>
  The value that a line assigns to a key: the text behind the first occurrence of
  the key on the line, if there is one.
\<close>

fun assigned :: "string \<Rightarrow> string \<Rightarrow> string option" where
  "assigned key [] = None"
| "assigned key (c # l) =
     (if prefix key (c # l) then Some (drop (length key) (c # l)) else assigned key l)"

definition flag_key :: "language \<Rightarrow> string" where
  "flag_key lang = ''ARG INSTALL_'' @ lang_name lang @ ''=''"

definition version_key :: "version_arg \<Rightarrow> string" where
  "version_key va = ''ARG '' @ version_arg_name va @ ''=''"

text \<open>The flag literals, line by line, that a text gives to a language.\<close>

definition flag_literals :: "language \<Rightarrow> string \<Rightarrow> string option list" where
  "flag_literals lang s = map (assigned (flag_key lang)) (split_nl s)"

definition version_values :: "version_arg \<Rightarrow> string \<Rightarrow> string option list" where
  "version_values va s = map (assigned (version_key va)) (split_nl s)"

text \<open>
  A version value is plain when it holds no capital A (every marker of the
  scripts begins with \<^verbatim>\<open>ARG\<close>), no newline and no backslash.
\<close>

definition plain :: "string \<Rightarrow> bool" where
  "plain v \<longleftrightarrow> CHR ''A'' \<notin> set v \<and> nl \<notin> set v \<and> backslash \<notin> set v"

text \<open>What the two scripts were asked to do with a language.\<close>

fun enabled :: "args \<Rightarrow> language \<Rightarrow> bool" where
  "enabled a GOLANG = golang a"
| "enabled a RUST = rust a"
| "enabled a PYTHON = python a"
| "enabled a NODEJS = nodejs a"
| "enabled a JAVA = java a"

fun c_enabled :: "copy_args \<Rightarrow> language \<Rightarrow> bool" where
  "c_enabled a GOLANG = c_golang a"
| "c_enabled a RUST = c_rust a"
| "c_enabled a PYTHON = c_python a"
| "c_enabled a NODEJS = c_nodejs a"
| "c_enabled a JAVA = c_java a"

text \<open>The defaults of \<^verbatim>\<open>parse_arguments\<close> in the two scripts.\<close>

definition default_args :: args where
  "default_args =
     \<lparr>base = ubuntu, golang = False, go_version = ''1.22.2'', rust = False, python = False,
      nodejs = False, node_version = ''20'', java = False, java_version = ''17'',
      output_file = ''Dockerfile'', template = ''templates/Dockerfile-Template'', all = False\<rparr>"

definition default_copy_args :: copy_args where
  "default_copy_args =
     \<lparr>c_output = ''Dockerfile'', c_os = ubuntu, c_golang = False, c_rust = False,
      c_python = False, c_nodejs = False, c_java = False, c_go_version = ''1.22.2'',
      c_node_version = ''20'', c_java_version = ''17'',
      c_template = ''./templates/Dockerfile-Template''\<rparr>"

definition empty_world :: world where
  "empty_world = \<lparr>files = Map.empty, unwritable = Map.empty, stdout = []\<rparr>"

text \<open>The version argument that \<^verbatim>\<open>main\<close> passes for a language, and its value.\<close>

fun version_arg_of :: "language \<Rightarrow> version_arg option" where
  "version_arg_of GOLANG = Some GO_VERSION"
| "version_arg_of NODEJS = Some NODE_MAJOR"
| "version_arg_of JAVA = Some JAVA_VERSION"
| "version_arg_of lang = None"

fun c_version :: "copy_args \<Rightarrow> language \<Rightarrow> string" where
  "c_version a GOLANG = c_go_version a"
| "c_version a NODEJS = c_node_version a"
| "c_version a JAVA = c_java_version a"
| "c_version a lang = []"

text \<open>The command line \<^verbatim>\<open>create-dockerfile.py --template=missing\<close>.\<close>

definition missing_args :: args where
  "missing_args = default_args\<lparr>template := ''missing''\<rparr>"

text \<open>The version value of a language in the first variant.\<close>

fun version :: "args \<Rightarrow> language \<Rightarrow> string" where
  "version a GOLANG = go_version a"
| "version a NODEJS = node_version a"
| "version a JAVA = java_version a"
| "version a lang = []"

text \<open>
  The three steps of \<^verbatim>\<open>configure_language\<close> on a line or on the list of lines: the
  flag rewrite, the version rewrite and the reactivation of the conditional block.
\<close>

definition flag_step :: "language \<Rightarrow> bool \<Rightarrow> string \<Rightarrow> string" where
  "flag_step lang install = replace (flag_key lang @ ''true'') (flag_key lang @ bool_lower install)"

definition version_step :: "version_arg \<Rightarrow> string \<Rightarrow> string \<Rightarrow> string" where
  "version_step va vv = rewrite_assignment (version_key va) (version_key va @ vv)"

definition call_line :: "copy_args \<Rightarrow> language \<Rightarrow> string \<Rightarrow> string" where
  "call_line a lang l =
     (case version_arg_of lang of
        Some va \<Rightarrow> if c_version a lang = [] then id else version_step va (c_version a lang)
      | None \<Rightarrow> id)
       (flag_step lang (c_enabled a lang) l)"

definition call_lines :: "copy_args \<Rightarrow> language \<Rightarrow> string list \<Rightarrow> string list" where
  "call_lines a lang ls =
     (if c_enabled a lang then uncomment_block (block_start lang) else id)
       ((case version_arg_of lang of
           Some va \<Rightarrow> if c_version a lang = [] then id else map (version_step va (c_version a lang))
         | None \<Rightarrow> id)
         (map (flag_step lang (c_enabled a lang)) ls))"

text \<open>The version assignments that the first variant looks for.\<close>

fun default_assignment :: "version_arg \<Rightarrow> string" where
  "default_assignment GO_VERSION = ''ARG GO_VERSION=1.22.2''"
| "default_assignment NODE_MAJOR = ''ARG NODE_MAJOR=20''"
| "default_assignment JAVA_VERSION = ''ARG JAVA_VERSION=17''"

text \<open>A template with one flag that is on by default, and one version.\<close>

definition flag_template :: string where
  "flag_template = ''ARG INSTALL_NODEJS=true'' @ [nl] @ ''ARG NODE_MAJOR=20''"

definition go_template :: string where
  "go_template = ''ARG INSTALL_GOLANG=true'' @ [nl] @ ''ARG GO_VERSION=1.22.2''"

text \<open>Two file systems: a template without any marker of Go, and one with them.\<close>

definition unmatched_world :: world where
  "unmatched_world = empty_world\<lparr>files := [''t'' \<mapsto> File ''FROM ubuntu:22.04'']\<rparr>"

definition matched_world :: world where
  "matched_world = empty_world\<lparr>files := [''t'' \<mapsto> File go_template]\<rparr>"

definition go_args :: args where
  "go_args = default_args\<lparr>golang := True, template := ''t''\<rparr>"

definition go_copy_args :: copy_args where
  "go_copy_args = default_copy_args\<lparr>c_golang := True, c_template := ''t''\<rparr>"

text \<open>
  The texts that the first variant looks for; a transformation that works line by
  line; and a line on which a configurator call of the second variant finds nothing.
\<close>

definition markers :: "string list" where
  \<open>markers =
     [''#FROM ubuntu:22.04'', ''# RUN apt-get update'', ''FROM ubuntu:22.04'',
      ''# FROM alpine:latest'', ''# RUN apk update'', ''CMD ["/bin/bash"]'',
      ''# For Alpine, use "/bin/ash" instead of "/bin/bash"'',
      ''ARG INSTALL_GOLANG=true'', ''ARG GO_VERSION=1.22.2'', ''ARG INSTALL_RUST=true'',
      ''ARG INSTALL_PYTHON=true'', ''ARG INSTALL_NODEJS=true'', ''ARG NODE_MAJOR=20'',
      ''ARG INSTALL_JAVA=true'', ''ARG JAVA_VERSION=17'']\<close>

definition line_local :: "(string \<Rightarrow> string) \<Rightarrow> bool" where
  "line_local f \<longleftrightarrow> (\<forall>x y. f (x @ nl # y) = f x @ nl # f y)"

definition unmarked :: "language \<Rightarrow> string \<Rightarrow> bool" where
  "unmarked lang l \<longleftrightarrow>
     \<not> sublist (flag_key lang @ ''true'') l \<and> (\<forall>va. \<not> sublist (version_key va) l) \<and>
     \<not> prefix (block_start lang) l"

definition two_lines :: string where
  "two_lines = ''RUN echo hello'' @ [nl] @ ''ARG INSTALL_RUST=true''"

text \<open>
  The region toggler of the second variant on lines: \<open>comment_ubuntu\<close>, then on each
  line the two activations and the change of the shell. \<open>ubuntu_region\<close>: some line
  begins with \<^verbatim>\<open>FROM ubuntu\<close> and has an empty line behind it, which is what the
  first pattern of \<^verbatim>\<open>configure_base_os\<close> matches.
\<close>

definition cmd_bash :: string where
  \<open>cmd_bash = ''CMD ["/bin/bash"]''\<close>

definition cmd_ash :: string where
  \<open>cmd_ash = ''CMD ["/bin/ash"]''\<close>

definition activate :: "string \<Rightarrow> string" where
  "activate l =
     replace cmd_bash cmd_ash
       (uncomment_line ''RUN apk update'' (uncomment_line ''FROM alpine'' l))"

definition base_lines :: "string list \<Rightarrow> string list" where
  "base_lines ls = map activate (comment_ubuntu ls)"

fun ubuntu_region :: "string list \<Rightarrow> bool" where
  "ubuntu_region [] = False"
| "ubuntu_region (l # ls) = ((prefix ''FROM ubuntu'' l \<and> [] \<in> set ls) \<or> ubuntu_region ls)"

text \<open>
  Three templates: an active ubuntu block that ends in an empty line; the same with
  a commented alpine block behind it; and one with both \<^verbatim>\<open>FROM\<close> lines active. A
  marker is active in a list of lines when some line begins with it.
\<close>

definition ubuntu_block :: string where
  "ubuntu_block = ''FROM ubuntu:22.04'' @ [nl] @ ''RUN apt-get update'' @ [nl]"

definition both_blocks :: string where
  "both_blocks = ''FROM ubuntu:22.04'' @ [nl] @ ''RUN apt-get update'' @ [nl] @ [nl] @
     ''# FROM alpine:latest'' @ [nl] @ ''# RUN apk update''"

definition both_active :: string where
  "both_active = ''FROM ubuntu:22.04'' @ [nl] @ ''FROM alpine:latest''"

definition active :: "string \<Rightarrow> string list \<Rightarrow> bool" where
  "active marker ls \<longleftrightarrow> (\<exists>l \<in> set ls. prefix marker l)"

text \<open>
  A template line that gives Go a version and sets its flag behind it, and the
  options that leave Go disabled and pass the rest of that line as the version
  of Go: \<^verbatim>\<open>--go-version '1 ARG INSTALL_GOLANG=true'\<close>.
\<close>

definition version_flag_line :: string where
  "version_flag_line = ''ARG GO_VERSION=1 ARG INSTALL_GOLANG=true''"

definition keep_args :: args where
  "keep_args = default_args\<lparr>go_version := ''1 ARG INSTALL_GOLANG=true''\<rparr>"

definition keep_copy_args :: copy_args where
  "keep_copy_args = default_copy_args\<lparr>c_go_version := ''1 ARG INSTALL_GOLANG=true''\<rparr>"

text \<open>
  Version values of Go with a backslash: \<^verbatim>\<open>1\\2\<close>, an escaped backslash, and \<^verbatim>\<open>1\d\<close>,
  an escape that \<^verbatim>\<open>re\<close> rejects; and the empty version value.
\<close>

definition escaped_backslash_args :: copy_args where
  "escaped_backslash_args =
     default_copy_args\<lparr>c_go_version := ''1'' @ [backslash, backslash] @ ''2''\<rparr>"

definition bad_escape_args :: copy_args where
  "bad_escape_args = default_copy_args\<lparr>c_go_version := ''1'' @ [backslash] @ ''d'', c_template := ''t''\<rparr>"

definition empty_version_args :: copy_args where
  "empty_version_args = default_copy_args\<lparr>c_go_version := []\<rparr>"

section \<open>Facts about \<open>replace\<close>\<close>

lemma replace_Nil [simp]: "replace old new [] = (if old = [] then new else [])"
  by (simp add: replace.simps)

lemma replace_prefix: "old \<noteq> [] \<Longrightarrow> replace old new (old @ s) = new @ replace old new s"
  by (subst replace.simps) simp

lemma replace_Cons:
  "old \<noteq> [] \<Longrightarrow> \<not> prefix old (c # s) \<Longrightarrow> replace old new (c # s) = c # replace old new s"
  by (subst replace.simps) simp

lemma prefix_append_starts_in: "u \<noteq> [] \<Longrightarrow> prefix w (u @ z) \<Longrightarrow> starts_in u w"
proof (cases u)
  case Nil
  assume "u \<noteq> []"
  with Nil show ?thesis by simp
next
  case (Cons x u')
  assume "prefix w (u @ z)"
  then have "prefix w u \<or> prefix u w"
    unfolding prefix_append by auto
  then show ?thesis using Cons by auto
qed

lemma not_starts_in_hd: "w \<noteq> [] \<Longrightarrow> hd w \<notin> set v \<Longrightarrow> \<not> starts_in v w"
  by (induction v) (auto simp: prefix_def neq_Nil_conv)

lemma replace_append_free:
  "old \<noteq> [] \<Longrightarrow> \<not> starts_in u old \<Longrightarrow> replace old new (u @ z) = u @ replace old new z"
proof (induction u)
  case Nil
  then show ?case by simp
next
  case (Cons x u)
  have "\<not> prefix old (x # u @ z)"
    using Cons.prems(2) prefix_append_starts_in [of "x # u" old z] by auto
  then show ?case using Cons by (simp add: replace_Cons)
qed

lemma replace_free: "old \<noteq> [] \<Longrightarrow> \<not> starts_in u old \<Longrightarrow> replace old new u = u"
  using replace_append_free [of old u new "[]"] by simp

lemma prefix_replaceD:
  "\<not> starts_in w new \<Longrightarrow> prefix w (replace old new s) \<Longrightarrow> old \<noteq> [] \<Longrightarrow> prefix w s"
proof (induction s arbitrary: w rule: length_induct)
  case (1 s)
  show ?case
  proof (cases w)
    case Nil
    then show ?thesis by simp
  next
    case (Cons y w')
    show ?thesis
    proof (cases s)
      case Nil
      then show ?thesis using 1 Cons by simp
    next
      case s: (Cons x s')
      show ?thesis
      proof (cases "prefix old s")
        case True
        then obtain t where t: "s = old @ t" by (auto simp: prefix_def)
        have "prefix w (new @ replace old new t)"
          using 1(3) 1(4) t by (simp add: replace_prefix)
        then have "starts_in w new"
          using Cons by (auto simp: prefix_append)
        then show ?thesis using 1(2) by simp
      next
        case False
        then have "replace old new s = x # replace old new s'"
          using 1(4) s by (simp add: replace_Cons)
        then have "x = y" and "prefix w' (replace old new s')"
          using 1(3) Cons by auto
        moreover have "\<not> starts_in w' new" using 1(2) Cons by simp
        ultimately have "prefix w' s'"
          using 1(1) 1(4) s by auto
        then show ?thesis using \<open>x = y\<close> Cons s by simp
      qed
    qed
  qed
qed

lemma prefix_replace_tlD:
  assumes "old \<noteq> []" "\<not> prefix old s" "\<not> starts_in (tl w) new"
    and "prefix w (replace old new s)"
  shows "prefix w s"
proof (cases s)
  case Nil
  then show ?thesis using assms by simp
next
  case (Cons x s')
  then have r: "replace old new s = x # replace old new s'"
    using assms by (simp add: replace_Cons)
  show ?thesis
  proof (cases w)
    case Nil
    then show ?thesis by simp
  next
    case w: (Cons y w')
    then have "x = y" and "prefix w' (replace old new s')"
      using assms(4) r by auto
    moreover have "\<not> starts_in w' new" using assms(3) w by simp
    ultimately show ?thesis
      using prefix_replaceD [of w' new old s'] assms(1) w Cons by simp
  qed
qed

lemma prefix_replace_iff:
  "old \<noteq> [] \<Longrightarrow> \<not> starts_in w old \<Longrightarrow> \<not> starts_in w new \<Longrightarrow>
     prefix w (replace old new s) \<longleftrightarrow> prefix w s"
proof
  assume "prefix w (replace old new s)" and "\<not> starts_in w new" and "old \<noteq> []"
  then show "prefix w s" using prefix_replaceD [of w new old s] by simp
next
  assume "prefix w s" and o: "old \<noteq> []" and f: "\<not> starts_in w old"
  then obtain z where "s = w @ z" by (auto simp: prefix_def)
  then show "prefix w (replace old new s)"
    using replace_append_free [OF o f, of new z] by simp
qed

lemma replace_idem:
  assumes "old \<noteq> []" "\<not> starts_in new old" "\<not> starts_in old new"
  shows "replace old new (replace old new s) = replace old new s"
proof (induction s rule: length_induct)
  case (1 s)
  show ?case
  proof (cases s)
    case Nil
    then show ?thesis using assms by simp
  next
    case (Cons x s')
    show ?thesis
    proof (cases "prefix old s")
      case True
      then obtain t where t: "s = old @ t" by (auto simp: prefix_def)
      then have "length t < length s" using assms(1) by simp
      then show ?thesis
        using 1 t assms by (simp add: replace_prefix replace_append_free)
    next
      case False
      then have "\<not> prefix old (replace old new s)"
        using prefix_replaceD [OF assms(3) _ assms(1)] by blast
      then show ?thesis
        using 1 Cons False assms(1) by (simp add: replace_Cons)
    qed
  qed
qed

lemma replace_same: "replace old old s = s"
proof (cases "old = []")
  case True
  then show ?thesis by (simp add: replace.simps)
next
  case False
  show ?thesis
  proof (induction s rule: length_induct)
    case (1 s)
    show ?case
    proof (cases "prefix old s")
      case True
      then obtain t where t: "s = old @ t" by (auto simp: prefix_def)
      then show ?thesis using 1 False by (simp add: replace_prefix)
    next
      case np: False
      then show ?thesis using 1 False by (cases s) (simp_all add: replace_Cons)
    qed
  qed
qed

subsection \<open>Two replacements that do not interfere commute\<close>

lemma replace2_Nil: "replace2 a b c d [] = []"
  by (simp add: replace2.simps)

lemma replace2_first:
  "a \<noteq> [] \<Longrightarrow> c \<noteq> [] \<Longrightarrow> replace2 a b c d (a @ t) = b @ replace2 a b c d t"
  by (subst replace2.simps) simp

lemma replace2_second:
  "a \<noteq> [] \<Longrightarrow> c \<noteq> [] \<Longrightarrow> \<not> prefix a (c @ t) \<Longrightarrow>
     replace2 a b c d (c @ t) = d @ replace2 a b c d t"
  by (subst replace2.simps) simp

lemma replace2_Cons:
  "a \<noteq> [] \<Longrightarrow> c \<noteq> [] \<Longrightarrow> \<not> prefix a (x # t) \<Longrightarrow> \<not> prefix c (x # t) \<Longrightarrow>
     replace2 a b c d (x # t) = x # replace2 a b c d t"
  by (subst replace2.simps) simp

lemma replace_replace2:
  assumes "a \<noteq> []" "c \<noteq> []" "\<not> starts_in a c" "\<not> starts_in d a" "\<not> starts_in a d"
  shows "replace a b (replace c d s) = replace2 a b c d s"
proof (induction s rule: length_induct)
  case (1 s)
  show ?case
  proof (cases s)
    case Nil
    then show ?thesis using assms by (simp add: replace2_Nil)
  next
    case (Cons x s')
    show ?thesis
    proof (cases "prefix a s")
      case True
      then obtain t where t: "s = a @ t" by (auto simp: prefix_def)
      then have "replace a b (replace c d s) = b @ replace a b (replace c d t)"
        using assms by (simp add: replace_append_free replace_prefix)
      moreover have "replace2 a b c d s = b @ replace2 a b c d t"
        using t assms(1,2) by (simp add: replace2_first)
      moreover have "length t < length s" using t assms(1) by simp
      ultimately show ?thesis using 1 by simp
    next
      case na: False
      show ?thesis
      proof (cases "prefix c s")
        case True
        then obtain t where t: "s = c @ t" by (auto simp: prefix_def)
        then have "replace a b (replace c d s) = d @ replace a b (replace c d t)"
          using assms by (simp add: replace_append_free replace_prefix)
        moreover have "replace2 a b c d s = d @ replace2 a b c d t"
          using t assms(1,2) na by (simp add: replace2_second)
        moreover have "length t < length s" using t assms(2) by simp
        ultimately show ?thesis using 1 by simp
      next
        case nc: False
        have "\<not> prefix a (replace c d s)"
          using prefix_replaceD [OF assms(5) _ assms(2)] na by blast
        then have "replace a b (replace c d s) = x # replace a b (replace c d s')"
          using nc Cons assms(1,2) by (simp add: replace_Cons)
        moreover have "replace2 a b c d s = x # replace2 a b c d s'"
          using na nc Cons assms(1,2) by (simp add: replace2_Cons)
        ultimately show ?thesis using 1 Cons by simp
      qed
    qed
  qed
qed

lemma replace2_sym:
  assumes "a \<noteq> []" "c \<noteq> []" "\<not> starts_in a c"
  shows "replace2 a b c d s = replace2 c d a b s"
proof (induction s rule: length_induct)
  case (1 s)
  have nb: "\<not> (prefix a s \<and> prefix c s)"
  proof
    assume "prefix a s \<and> prefix c s"
    then have "prefix a c \<or> prefix c a"
      by (metis prefix_same_cases)
    then show False using assms by (cases a) auto
  qed
  show ?case
  proof (cases s)
    case Nil
    then show ?thesis by (simp add: replace2_Nil)
  next
    case (Cons x s')
    show ?thesis
    proof (cases "prefix a s")
      case True
      then obtain t where t: "s = a @ t" by (auto simp: prefix_def)
      have "\<not> prefix c (a @ t)" using nb True t by simp
      moreover have "length t < length s" using t assms(1) by simp
      ultimately show ?thesis
        using 1 t assms by (simp add: replace2_first replace2_second)
    next
      case na: False
      show ?thesis
      proof (cases "prefix c s")
        case True
        then obtain t where t: "s = c @ t" by (auto simp: prefix_def)
        have "\<not> prefix a (c @ t)" using na t by simp
        moreover have "length t < length s" using t assms(2) by simp
        ultimately show ?thesis
          using 1 t assms by (simp add: replace2_first replace2_second)
      next
        case False
        then show ?thesis
          using 1 na Cons assms by (simp add: replace2_Cons)
      qed
    qed
  qed
qed

lemma replace_commute:
  assumes "a \<noteq> []" "c \<noteq> []"
    "\<not> starts_in a c" "\<not> starts_in c a" "\<not> starts_in d a" "\<not> starts_in a d"
    "\<not> starts_in b c" "\<not> starts_in c b"
  shows "replace a b (replace c d s) = replace c d (replace a b s)"
  using replace_replace2 [of a c d b s] replace_replace2 [of c a b d s]
    replace2_sym [of a c b d s] assms by simp

section \<open>Lines\<close>

lemma split_nl_not_Nil [simp]: "split_nl s \<noteq> []"
  by (induction s) (auto split: list.splits)

lemma join_split [simp]: "join [nl] (split_nl s) = s"
proof (induction s)
  case Nil
  then show ?case by simp
next
  case (Cons c s)
  obtain l ls where e: "split_nl s = l # ls" by (cases "split_nl s") auto
  show ?case 
  proof (cases "c = nl")
    case True
    then show ?thesis using Cons e by simp
  next
    case False
    then show ?thesis using Cons e by (cases ls) auto
  qed
qed

lemma split_nl_lines: "l \<in> set (split_nl s) \<Longrightarrow> nl \<notin> set l"
proof (induction s arbitrary: l)
  case Nil
  then show ?case by simp
next
  case (Cons c s)
  obtain k ks where e: "split_nl s = k # ks" by (cases "split_nl s") auto
  then show ?case using Cons by (auto split: if_splits)
qed

lemma proper_split [simp]: "proper_lines (split_nl s)"
  by (auto simp: proper_lines_def dest: split_nl_lines)

lemma split_nl_free: "nl \<notin> set l \<Longrightarrow> split_nl l = [l]"
  by (induction l) auto

lemma split_nl_append: "nl \<notin> set l \<Longrightarrow> split_nl (l @ nl # s) = l # split_nl s"
  by (induction l) auto

lemma split_join: "proper_lines ls \<Longrightarrow> split_nl (join [nl] ls) = ls"
proof (induction ls rule: induct_list012)
  case 1
  then show ?case by (simp add: proper_lines_def)
next
  case (2 x)
  then show ?case by (simp add: proper_lines_def split_nl_free)
next
  case (3 x y zs)
  then show ?case by (simp add: proper_lines_def split_nl_append)
qed

lemma on_lines_on_lines:
  "proper_lines (g (split_nl s)) \<Longrightarrow> on_lines f (on_lines g s) = on_lines (f \<circ> g) s"
  by (simp add: on_lines_def split_join)

lemma replace_nl:
  assumes "old \<noteq> []" "nl \<notin> set old"
  shows "replace old new (a @ nl # b) = replace old new a @ nl # replace old new b"
proof (induction a rule: length_induct)
  case (1 a)
  show ?case
  proof (cases a)
    case Nil
    have "\<not> prefix old (nl # b)" using assms by (cases old) auto
    then show ?thesis using Nil assms by (simp add: replace_Cons)
  next
    case (Cons x a')
    show ?thesis
    proof (cases "prefix old a")
      case True
      then obtain t where t: "a = old @ t" by (auto simp: prefix_def)
      then have "length t < length a" using assms by simp
      then show ?thesis using 1 t assms by (simp add: replace_prefix)
    next
      case False
      have "\<not> prefix old (a @ nl # b)"
      proof
        assume "prefix old (a @ nl # b)"
        then obtain us where "old = a @ us" "prefix us (nl # b)"
          using False unfolding prefix_append by auto
        then show False using False assms(2) by (cases us) auto
      qed
      then show ?thesis using 1 Cons False assms by (simp add: replace_Cons)
    qed
  qed
qed

lemma replace_join:
  assumes "old \<noteq> []" "nl \<notin> set old"
  shows "replace old new (join [nl] ls) = join [nl] (map (replace old new) ls)"
  by (induction ls rule: induct_list012) (simp_all add: assms replace_nl)

lemma replace_on_lines:
  "old \<noteq> [] \<Longrightarrow> nl \<notin> set old \<Longrightarrow> replace old new s = on_lines (map (replace old new)) s"
  using replace_join [of old new "split_nl s"] by (simp add: on_lines_def)

lemma fold_print: "fold print xs w = w\<lparr>stdout := stdout w @ xs\<rparr>"
  by (induction xs arbitrary: w) (simp_all add: print_def)

section \<open>A missing template\<close>

text \<open>
  C8, as stated, fails: with no language switch and one command-line argument the
  first variant shows its help screen and exits with status 0, whether the template
  exists or not.
\<close>

theorem missing_template_help_counterexample:
  "files empty_world (template missing_args) = None \<and>
   main 2 missing_args empty_world = (0, empty_world\<lparr>stdout := display_help_message\<rparr>)"
  by (simp add: main_def missing_args_def default_args_def empty_world_def fold_print)

text \<open>
  C8, amended: when the template file does not exist no file is written;
  \<^verbatim>\<open>generate_dockerfile\<close> in the first variant and \<^verbatim>\<open>main\<close> in the second print the
  error and exit with status 1 before any transformation; the first variant's
  \<^verbatim>\<open>main\<close> does so whenever a language switch is set or more than one argument
  is given.
\<close>

theorem missing_template_is_fatal:
  assumes "files w (template a) = None" and "files w (c_template ca) = None"
  shows "generate_dockerfile a w =
           (1, print (''Error: Template file not found at '' @ template a) w)
       \<and> copy_main ca w =
           Inr (1, print (''Error: Template file not found at '' @ c_template ca) w)
       \<and> files (snd (main argc a w)) = files w
       \<and> (golang a \<or> rust a \<or> python a \<or> nodejs a \<or> java a \<or> all a \<or> 2 < argc \<longrightarrow>
            main argc a w = (1, print (''Error: Template file not found at '' @ template a) w))"
  using assms
  by (auto simp: generate_dockerfile_def copy_main_def read_template_def main_def fold_print
      print_def)

theorem missing_template_is_fatal_witness:
  "files empty_world (template (missing_args\<lparr>golang := True\<rparr>)) = None
   \<and> files empty_world (c_template (default_copy_args\<lparr>c_template := ''missing''\<rparr>)) = None
   \<and> main 3 (missing_args\<lparr>golang := True\<rparr>) empty_world =
       (1, empty_world\<lparr>stdout := [''Error: Template file not found at missing'']\<rparr>)
   \<and> copy_main (default_copy_args\<lparr>c_template := ''missing''\<rparr>) empty_world =
       Inr (1, empty_world\<lparr>stdout := [''Error: Template file not found at missing'']\<rparr>)"
  using missing_template_is_fatal [of empty_world "missing_args\<lparr>golang := True\<rparr>"
      "default_copy_args\<lparr>c_template := ''missing''\<rparr>" 3]
  by (simp add: missing_args_def default_args_def default_copy_args_def empty_world_def print_def)

lemma set_replace: "old \<noteq> [] \<Longrightarrow> set (replace old new s) \<subseteq> set s \<union> set new"
proof (induction s rule: length_induct)
  case (1 s)
  show ?case
  proof (cases s)
    case Nil
    then show ?thesis using 1 by simp
  next
    case (Cons x s')
    show ?thesis
    proof (cases "prefix old s")
      case True
      then obtain t where t: "s = old @ t" by (auto simp: prefix_def)
      then have "length t < length s" using 1(2) by simp
      then have "set (replace old new t) \<subseteq> set t \<union> set new" using 1 by blast
      then show ?thesis using t 1(2) by (auto simp: replace_prefix)
    next
      case False
      have "set (replace old new s') \<subseteq> set s' \<union> set new" using 1 Cons by simp
      then show ?thesis using False Cons 1(2) by (auto simp: replace_Cons)
    qed
  qed
qed

lemma split_replace:
  assumes "old \<noteq> []" "nl \<notin> set old" "nl \<notin> set new"
  shows "split_nl (replace old new s) = map (replace old new) (split_nl s)"
proof -
  have "proper_lines (map (replace old new) (split_nl s))"
    using set_replace [OF assms(1), of new] assms(3) split_nl_lines [of _ s]
    by (fastforce simp: proper_lines_def)
  then show ?thesis
    using replace_on_lines [OF assms(1,2), of new s] by (simp add: on_lines_def split_join)
qed

section \<open>Assignments on a line\<close>

lemma assigned_key: "k \<noteq> [] \<Longrightarrow> assigned k (k @ z) = Some z"
  by (cases k) simp_all

lemma assigned_append_free: "\<not> starts_in u k \<Longrightarrow> assigned k (u @ z) = assigned k z"
proof (induction u)
  case Nil
  then show ?case by simp
next
  case (Cons x u)
  have "\<not> prefix k (x # u @ z)"
    using Cons.prems prefix_append_starts_in [of "x # u" k z] by auto
  then show ?case using Cons by simp
qed

lemma assigned_free: "\<not> starts_in u k \<Longrightarrow> assigned k u = None"
  using assigned_append_free [of u k "[]"] by simp

lemma assigned_None_replace:
  "assigned k l = None \<Longrightarrow> k \<noteq> [] \<Longrightarrow> replace (k @ t) new l = l"
proof (induction l)
  case Nil
  then show ?case by simp
next
  case (Cons x l)
  then have "\<not> prefix k (x # l)" by (auto split: if_splits)
  then have "\<not> prefix (k @ t) (x # l)" using append_prefixD by blast
  then show ?case using Cons by (auto simp: replace_Cons split: if_splits)
qed

lemma assigned_replace_own:
  assumes "k \<noteq> []" "\<not> starts_in (tl k) (k @ t')"
  shows "assigned k l = Some t \<Longrightarrow> assigned k (replace (k @ t) (k @ t') l) = Some t'"
proof (induction l)
  case Nil
  then show ?case by simp
next
  case (Cons x l)
  show ?case
  proof (cases "prefix k (x # l)")
    case True
    then have "x # l = k @ t" using Cons.prems by (auto simp: prefix_def)
    then show ?thesis
      using replace_prefix [of "k @ t" "k @ t'" "[]"] assms(1) by (simp add: assigned_key)
  next
    case False
    then have np: "\<not> prefix (k @ t) (x # l)" using append_prefixD by blast
    then have "\<not> prefix k (replace (k @ t) (k @ t') (x # l))"
      using prefix_replace_tlD [of "k @ t" "x # l" k "k @ t'"] assms False by auto
    then show ?thesis using Cons False np assms(1) by (simp add: replace_Cons)
  qed
qed

lemma assigned_replace:
  assumes "old \<noteq> []" "k \<noteq> []" "\<not> starts_in k old" "\<not> starts_in old k" "\<not> starts_in new k"
    "\<not> starts_in (tl k) new"
  shows "assigned k (replace old new l) = map_option (replace old new) (assigned k l)"
proof (induction l rule: length_induct)
  case (1 l)
  show ?case
  proof (cases l)
    case Nil
    then show ?thesis using assms by simp
  next
    case (Cons x l')
    show ?thesis
    proof (cases "prefix k l")
      case True
      then obtain z where z: "l = k @ z" by (auto simp: prefix_def)
      then show ?thesis using assms by (simp add: replace_append_free assigned_key)
    next
      case nk: False
      show ?thesis
      proof (cases "prefix old l")
        case True
        then obtain t where t: "l = old @ t" by (auto simp: prefix_def)
        then have "length t < length l" using assms(1) by simp
        then show ?thesis
          using 1 t assms by (simp add: replace_prefix assigned_append_free)
      next
        case False
        then have "\<not> prefix k (replace old new l)"
          using prefix_replace_tlD [of old l k new] assms nk by auto
        then show ?thesis using 1 Cons False nk assms(1) by (simp add: replace_Cons)
      qed
    qed
  qed
qed

subsection \<open>The version rewrite of the second variant\<close>

lemma rewrite_key: "k \<noteq> [] \<Longrightarrow> rewrite_assignment k n (k @ z) = n"
  by (cases k) simp_all

lemma rewrite_append_free:
  "\<not> starts_in u k \<Longrightarrow> rewrite_assignment k n (u @ z) = u @ rewrite_assignment k n z"
proof (induction u)
  case Nil
  then show ?case by simp
next
  case (Cons x u)
  have "\<not> prefix k (x # u @ z)"
    using Cons.prems prefix_append_starts_in [of "x # u" k z] by auto
  then show ?case using Cons by simp
qed

lemma rewrite_absent: "assigned k l = None \<Longrightarrow> rewrite_assignment k n l = l"
  by (induction l) (auto split: if_splits)

lemma prefix_rewriteD:
  "\<not> starts_in w n \<Longrightarrow> prefix w (rewrite_assignment k n s) \<Longrightarrow> prefix w s"
proof (induction s arbitrary: w)
  case Nil
  then show ?case by simp
next
  case (Cons x s)
  show ?case
  proof (cases w)
    case Nil
    then show ?thesis by simp
  next
    case w: (Cons y w')
    show ?thesis
    proof (cases "prefix k (x # s)")
      case True
      then have "prefix w n" using Cons.prems by simp
      then show ?thesis using Cons.prems(1) w by simp
    next
      case False
      then show ?thesis using Cons w by auto
    qed
  qed
qed

lemma prefix_rewrite_tlD:
  assumes "\<not> prefix k s" "\<not> starts_in (tl w) n" "prefix w (rewrite_assignment k n s)"
  shows "prefix w s"
proof (cases s)
  case Nil
  then show ?thesis using assms by simp
next
  case (Cons x s')
  show ?thesis
  proof (cases w)
    case Nil
    then show ?thesis by simp
  next
    case w: (Cons y w')
    then show ?thesis
      using assms Cons prefix_rewriteD [of w' n k s'] by auto
  qed
qed

lemma assigned_rewrite_own:
  assumes "k \<noteq> []" "\<not> starts_in (tl k) (k @ v)"
  shows "assigned k (rewrite_assignment k (k @ v) l) = map_option (\<lambda>_. v) (assigned k l)"
proof (induction l)
  case Nil
  then show ?case by simp
next
  case (Cons x l)
  show ?case
  proof (cases "prefix k (x # l)")
    case True
    then show ?thesis using assms(1) by (simp add: assigned_key)
  next
    case False
    then have "\<not> prefix k (rewrite_assignment k (k @ v) (x # l))"
      using prefix_rewrite_tlD [of k "x # l" k "k @ v"] assms by auto
    then show ?thesis using Cons False by simp
  qed
qed

lemma assigned_rewrite:
  assumes "k \<noteq> []" "\<not> starts_in k vk" "\<not> starts_in n k" "\<not> starts_in (tl k) n"
  shows "assigned k (rewrite_assignment vk n l) = None \<or>
         assigned k (rewrite_assignment vk n l) = map_option (rewrite_assignment vk n) (assigned k l)"
proof (induction l rule: length_induct)
  case (1 l)
  show ?case
  proof (cases l)
    case Nil
    then show ?thesis by simp
  next
    case (Cons x l')
    show ?thesis
    proof (cases "prefix k l")
      case True
      then obtain z where z: "l = k @ z" by (auto simp: prefix_def)
      then show ?thesis using assms by (simp add: rewrite_append_free assigned_key)
    next
      case nk: False
      show ?thesis
      proof (cases "prefix vk l")
        case True
        then show ?thesis using Cons assms(3) by (simp add: assigned_free)
      next
        case False
        then have "\<not> prefix k (rewrite_assignment vk n l)"
          using prefix_rewrite_tlD [of vk l k n] assms nk by auto
        then show ?thesis using 1 Cons False nk by simp
      qed
    qed
  qed
qed

section \<open>The markers of the five languages\<close>

lemma flag_key_simps [simp]:
  "flag_key lang \<noteq> []" "nl \<notin> set (flag_key lang)"
  "\<not> starts_in (tl (flag_key lang)) (flag_key lang @ t)"
  by (cases lang; simp add: flag_key_def nl_def)+

lemma version_key_simps [simp]:
  "version_key va \<noteq> []" "nl \<notin> set (version_key va)"
  "\<not> starts_in (tl (version_key va)) (version_key va @ t)"
  by (cases va; simp add: version_key_def nl_def)+

lemma nl_bool_lower [simp]: "nl \<notin> set (bool_lower b)"
  by (simp add: bool_lower_def nl_def)

lemma flag_version_free:
  "\<not> starts_in (flag_key lang) (version_key va)"
  "\<not> starts_in (version_key va) (flag_key lang)"
  "\<not> starts_in (flag_key lang @ bool_lower b) (version_key va)"
  "\<not> starts_in (version_key va) (flag_key lang @ bool_lower b)"
  "\<not> starts_in (tl (version_key va)) (flag_key lang @ bool_lower b)"
  "CHR ''A'' \<notin> set v \<Longrightarrow> \<not> starts_in (version_key va @ v) (flag_key lang)"
  "\<not> starts_in (tl (flag_key lang)) (version_key va @ v)"
  by (cases lang; cases va; cases b;
      simp add: flag_key_def version_key_def bool_lower_def not_starts_in_hd)+

lemma literal_free:
  "\<not> starts_in (bool_lower b) (version_key va)"
  by (cases va; cases b; simp add: version_key_def bool_lower_def)

section \<open>The configurator call of the second variant on lines\<close>

lemma split_at_first:
  "x \<in> set ls \<Longrightarrow> ls = takeWhile (\<lambda>y. y \<noteq> x) ls @ x # tl (dropWhile (\<lambda>y. y \<noteq> x) ls)"
  by (induction ls) auto

lemma uncomment_block_rel:
  "list_all2 (\<lambda>l' l. l' = l \<or> (prefix st l \<and> l' = drop 2 l)) (uncomment_block st ls) ls"
proof (induction st ls rule: uncomment_block.induct)
  case (1 st)
  then show ?case by simp
next
  case (2 st l ls)
  let ?R = "\<lambda>l' l. l' = l \<or> (prefix st l \<and> l' = drop 2 l)"
  show ?case
  proof (cases "prefix st l \<and> block_end \<in> set ls")
    case True
    let ?t = "takeWhile (\<lambda>x. x \<noteq> block_end) ls"
    let ?d = "tl (dropWhile (\<lambda>x. x \<noteq> block_end) ls)"
    have ls: "ls = ?t @ block_end # ?d" using True split_at_first by fastforce
    have "list_all2 ?R (uncomment_block st ?d) ?d" using 2(1) True by simp
    then have "list_all2 ?R (drop 2 l # ?t @ block_end # uncomment_block st ?d)
                 (l # ?t @ block_end # ?d)"
      using True by (auto intro!: list_all2_appendI simp: list_all2_refl)
    then show ?thesis using True ls by simp
  next
    case False
    then show ?thesis using 2(2) by auto
  qed
qed

lemma length_uncomment_block [simp]: "length (uncomment_block st ls) = length ls"
  using uncomment_block_rel [of st ls] by (rule list_all2_lengthD)

lemma proper_uncomment_block: "proper_lines ls \<Longrightarrow> proper_lines (uncomment_block st ls)"
proof -
  assume p: "proper_lines ls"
  have "\<forall>l' \<in> set (uncomment_block st ls). nl \<notin> set l'"
  proof
    fix l' assume "l' \<in> set (uncomment_block st ls)"
    then obtain l where "l \<in> set ls" "l' = l \<or> l' = drop 2 l"
      using uncomment_block_rel [of st ls] by (auto simp: list_all2_conv_all_nth in_set_conv_nth)
    then show "nl \<notin> set l'" using p by (auto simp: proper_lines_def dest: in_set_dropD)
  qed
  moreover have "uncomment_block st ls \<noteq> []"
    using p length_uncomment_block [of st ls] by (auto simp: proper_lines_def simp del: length_uncomment_block)
  ultimately show ?thesis by (simp add: proper_lines_def)
qed

lemma assigned_drop2:
  "prefix ''# '' l \<Longrightarrow> k \<noteq> [] \<Longrightarrow> hd k \<noteq> CHR ''#'' \<Longrightarrow> hd k \<noteq> CHR '' '' \<Longrightarrow>
     assigned k (drop 2 l) = assigned k l"
  by (cases k) (auto simp: prefix_def)

lemma block_start_hash: "prefix st l \<Longrightarrow> st = block_start lang \<Longrightarrow> prefix ''# '' l"
  by (auto simp: block_start_def prefix_def)

lemma assigned_uncomment_block:
  assumes "k \<noteq> []" "hd k \<noteq> CHR ''#''" "hd k \<noteq> CHR '' ''"
  shows "map (assigned k) (uncomment_block (block_start lang) ls) = map (assigned k) ls"
proof -
  have "list_all2 (\<lambda>l' l. assigned k l' = assigned k l) (uncomment_block (block_start lang) ls) ls"
    using uncomment_block_rel [of "block_start lang" ls]
    by (rule list_all2_mono) (auto simp: assigned_drop2 [OF block_start_hash assms])
  then show ?thesis
    by (simp add: list_all2_conv_all_nth list_eq_iff_nth_eq)
qed

lemma set_rewrite: "set (rewrite_assignment k n l) \<subseteq> set l \<union> set n"
  by (induction l) auto

lemma proper_map_rewrite:
  "proper_lines ls \<Longrightarrow> nl \<notin> set n \<Longrightarrow> proper_lines (map (rewrite_assignment k n) ls)"
  using set_rewrite [of k n] by (fastforce simp: proper_lines_def)

lemma proper_map_replace:
  "proper_lines ls \<Longrightarrow> old \<noteq> [] \<Longrightarrow> nl \<notin> set new \<Longrightarrow> proper_lines (map (replace old new) ls)"
  using set_replace [of old new] by (fastforce simp: proper_lines_def)

lemma split_on_lines: "proper_lines (f (split_nl s)) \<Longrightarrow> split_nl (on_lines f s) = f (split_nl s)"
  by (simp add: on_lines_def split_join)

lemma plain_simps: "plain v \<Longrightarrow> nl \<notin> set v" "plain v \<Longrightarrow> backslash \<notin> set v"
  "plain v \<Longrightarrow> CHR ''A'' \<notin> set v"
  by (simp_all add: plain_def)

lemma proper_call_lines:
  assumes "proper_lines ls" "nl \<notin> set (c_version a lang)"
  shows "proper_lines (call_lines a lang ls)"
proof -
  have 1: "proper_lines (map (flag_step lang (c_enabled a lang)) ls)"
    using assms(1) by (simp add: flag_step_def proper_map_replace)
  have 2: "proper_lines ((case version_arg_of lang of
           Some va \<Rightarrow> if c_version a lang = [] then id else map (version_step va (c_version a lang))
         | None \<Rightarrow> id) (map (flag_step lang (c_enabled a lang)) ls))"
    using 1 assms(2)
    by (auto split: option.splits simp: version_step_def proper_map_rewrite
        simp del: map_map)
  show ?thesis
  proof (cases "c_enabled a lang")
    case True
    then show ?thesis
      unfolding call_lines_def using 2 proper_uncomment_block by simp
  next
    case False
    then show ?thesis
      unfolding call_lines_def using 2 by simp
  qed
qed

lemma configure_call_eq:
  "configure_call a lang c =
     configure_language c lang (c_enabled a lang) (version_arg_of lang)
       (map_option (\<lambda>_. c_version a lang) (version_arg_of lang))"
  by (cases lang) simp_all

lemma configure_language_eq:
  "configure_language c lang inst va vvo =
     (if va \<noteq> None \<and> vvo \<noteq> None \<and> the vvo \<noteq> [] \<and> backslash \<in> set (the vvo)
      then (case compile_repl (version_key (the va) @ the vvo) of
              None \<Rightarrow> Inl TemplateError
            | Some items \<Rightarrow>
                Inr ((if inst then on_lines (uncomment_block (block_start lang)) else id)
                  (on_lines (map (rewrite_template (version_key (the va)) items))
                    (flag_step lang inst c))))
      else Inr ((if inst then on_lines (uncomment_block (block_start lang)) else id)
             ((if va \<noteq> None \<and> vvo \<noteq> None \<and> the vvo \<noteq> []
               then on_lines (map (version_step (the va) (the vvo))) else id)
               (flag_step lang inst c))))"
proof (cases va)
  case None
  then show ?thesis
    by (simp add: configure_language_def flag_step_def flag_key_def bool_lower_def)
next
  case (Some a)
  note va = this
  show ?thesis
  proof (cases vvo)
    case None
    then show ?thesis
      using va by (simp add: configure_language_def flag_step_def flag_key_def bool_lower_def)
  next
    case (Some vv)
    show ?thesis
      using va Some
      by (cases a)
        (simp_all add: configure_language_def sub_assignment_def version_key_def flag_step_def
          version_step_def flag_key_def bool_lower_def backslash_def split: option.splits)
  qed
qed

lemma flag_step_on_lines: "flag_step lang b c = on_lines (map (flag_step lang b)) c"
proof -
  have "nl \<notin> set (flag_key lang @ ''true'')"
    using flag_key_simps(2) [of lang] by (simp add: nl_def)
  then show ?thesis
    unfolding flag_step_def by (intro replace_on_lines) simp_all
qed

lemma proper_flag_step: "proper_lines ls \<Longrightarrow> proper_lines (map (flag_step lang b) ls)"
  by (simp add: flag_step_def proper_map_replace)

lemma proper_version_step:
  "proper_lines ls \<Longrightarrow> nl \<notin> set vv \<Longrightarrow> proper_lines (map (version_step va vv) ls)"
  by (simp add: version_step_def proper_map_rewrite)

lemma configure_call_lines:
  assumes "nl \<notin> set (c_version a lang)" "backslash \<notin> set (c_version a lang)"
  shows "configure_call a lang c = Inr (on_lines (call_lines a lang) c)"
proof -
  define b where "b = c_enabled a lang"
  define vv where "vv = c_version a lang"
  define F where "F = map (flag_step lang b)"
  define V where "V = (case version_arg_of lang of
           Some va \<Rightarrow> if vv = [] then id else map (version_step va vv)
         | None \<Rightarrow> (id :: string list \<Rightarrow> string list))"
  define U where "U = (if b then uncomment_block (block_start lang) else id)"
  have pF: "proper_lines (F (split_nl c))"
    by (simp add: F_def proper_flag_step)
  have pV: "proper_lines (V (F (split_nl c)))"
    using pF assms by (auto simp: V_def vv_def proper_version_step split: option.splits)
  have "configure_call a lang c = Inr (on_lines U (on_lines V (flag_step lang b c)))"
    using assms
    by (cases "version_arg_of lang")
      (auto simp: configure_call_eq configure_language_eq b_def vv_def U_def V_def on_lines_def)
  also have "flag_step lang b c = on_lines F c"
    unfolding F_def by (rule flag_step_on_lines)
  also have "on_lines V (on_lines F c) = on_lines (V \<circ> F) c"
    using pF by (rule on_lines_on_lines)
  also have "on_lines U (on_lines (V \<circ> F) c) = on_lines (U \<circ> (V \<circ> F)) c"
    using pV by (intro on_lines_on_lines) simp
  also have "U \<circ> (V \<circ> F) = call_lines a lang"
    unfolding call_lines_def U_def V_def F_def b_def vv_def by (auto simp: fun_eq_iff)
  finally show ?thesis .
qed

lemma split_configure_call:
  assumes "nl \<notin> set (c_version a lang)" "backslash \<notin> set (c_version a lang)"
  shows "\<exists>out. configure_call a lang c = Inr out \<and> split_nl out = call_lines a lang (split_nl c)"
proof -
  have "configure_call a lang c = Inr (on_lines (call_lines a lang) c)"
    using assms by (rule configure_call_lines)
  moreover have "proper_lines (call_lines a lang (split_nl c))"
    using assms(1) by (simp add: proper_call_lines)
  ultimately show ?thesis by (simp add: split_on_lines)
qed

lemma call_lines_eq:
  "call_lines a lang ls =
     (if c_enabled a lang then uncomment_block (block_start lang) else id)
       (map (call_line a lang) ls)"
  by (cases "version_arg_of lang"; cases "c_version a lang = []")
    (simp_all add: call_lines_def call_line_def [abs_def] comp_def)

section \<open>The flag of a language under its configurator\<close>

lemma set_flag_eq: "set_flag (lang_name lang) b c = flag_step lang b c"
  by (simp add: set_flag_def flag_step_def flag_key_def bool_lower_def)

lemma flag_step_True [simp]: "flag_step lang True c = c"
  by (simp add: flag_step_def bool_lower_def replace_same)

lemma configure_eq:
  "configure a lang c =
     (if enabled a lang
      then (case version_arg_of lang of
              Some va \<Rightarrow> replace (default_assignment va) (version_key va @ version a lang) c
            | None \<Rightarrow> c)
      else flag_step lang False c)"
  using set_flag_eq [of GOLANG] set_flag_eq [of RUST] set_flag_eq [of PYTHON]
    set_flag_eq [of NODEJS] set_flag_eq [of JAVA]
  by (cases lang) (simp_all add: version_key_def)

lemma default_assignment_simps [simp]:
  "default_assignment va \<noteq> []" "nl \<notin> set (default_assignment va)"
  by (cases va; simp add: nl_def)+

lemma flag_default_free:
  "\<not> starts_in (flag_key lang) (default_assignment va)"
  "\<not> starts_in (default_assignment va) (flag_key lang)"
  "\<not> starts_in (bool_lower b) (default_assignment va)"
  by (cases lang; cases va; cases b; simp add: flag_key_def bool_lower_def)+

lemma assigned_flag_step:
  assumes "assigned (flag_key lang) l = None \<or> assigned (flag_key lang) l = Some ''true''"
  shows "assigned (flag_key lang) (flag_step lang b l) =
           map_option (\<lambda>_. bool_lower b) (assigned (flag_key lang) l)"
  using assms assigned_None_replace [of "flag_key lang" l "''true''" "flag_key lang @ bool_lower b"]
    assigned_replace_own [of "flag_key lang" "bool_lower b" l "''true''"]
  by (auto simp: flag_step_def)

lemma assigned_version_replace:
  assumes "CHR ''A'' \<notin> set v"
  shows "assigned (flag_key lang) (replace (default_assignment va) (version_key va @ v) l) =
           map_option (replace (default_assignment va) (version_key va @ v))
             (assigned (flag_key lang) l)"
  using assms by (intro assigned_replace) (simp_all add: flag_default_free flag_version_free)

lemma literal_kept:
  "replace (default_assignment va) new (bool_lower b) = bool_lower b"
  by (intro replace_free) (simp_all add: flag_default_free)

lemma map_option_const_id:
  "x = None \<or> x = Some t \<Longrightarrow> map_option (\<lambda>_. t) x = x"
  by auto

lemma first_variant_flag:
  assumes "set (flag_literals lang c) \<subseteq> {None, Some ''true''}" "plain (version a lang)"
  shows "flag_literals lang (configure a lang c) =
           map (map_option (\<lambda>_. bool_lower (enabled a lang))) (flag_literals lang c)"
proof (cases "enabled a lang")
  case False
  have "split_nl (flag_step lang False c) = map (flag_step lang False) (split_nl c)"
    unfolding flag_step_def by (intro split_replace) (simp_all add: nl_def bool_lower_def flag_key_simps(2) [unfolded nl_def])
  then show ?thesis
    using False assms(1)
    by (auto simp: configure_eq flag_literals_def assigned_flag_step)
next
  case True
  show ?thesis
  proof (cases "version_arg_of lang")
    case None
    then show ?thesis
      using True assms(1)
      by (auto simp: configure_eq flag_literals_def bool_lower_def intro!: map_option_const_id [symmetric])
  next
    case (Some va)
    let ?R = "replace (default_assignment va) (version_key va @ version a lang)"
    have "split_nl (?R c) = map ?R (split_nl c)"
      using assms(2) by (intro split_replace) (simp_all add: plain_simps)
    moreover have "assigned (flag_key lang) (?R l) = map_option (\<lambda>_. ''true'') (assigned (flag_key lang) l)"
      if "l \<in> set (split_nl c)" for l
    proof -
      have "assigned (flag_key lang) l = None \<or> assigned (flag_key lang) l = Some ''true''"
        using that assms(1) by (auto simp: flag_literals_def)
      then show ?thesis
        using assigned_version_replace [of "version a lang" lang va l] assms(2)
          literal_kept [of va "version_key va @ version a lang" True]
        by (auto simp: plain_simps bool_lower_def)
    qed
    ultimately show ?thesis
      using True Some by (simp add: configure_eq flag_literals_def bool_lower_def)
  qed
qed

lemma assigned_literal_None [simp]: "assigned (version_key va) (bool_lower b) = None"
  by (intro assigned_free) (simp add: literal_free)

lemma second_variant_line_weak:
  assumes "assigned (flag_key lang) l = None \<or> assigned (flag_key lang) l = Some ''true''"
    and "CHR ''A'' \<notin> set (c_version a lang)"
  shows "assigned (flag_key lang) (call_line a lang l) = None \<or>
         assigned (flag_key lang) (call_line a lang l) = Some (bool_lower (c_enabled a lang))"
proof -
  let ?b = "c_enabled a lang"
  have f: "assigned (flag_key lang) (flag_step lang ?b l) = None \<or>
           assigned (flag_key lang) (flag_step lang ?b l) = Some (bool_lower ?b)"
    using assms(1) by (auto simp: assigned_flag_step)
  show ?thesis
  proof (cases "version_arg_of lang")
    case None
    then show ?thesis using f by (simp add: call_line_def)
  next
    case (Some va)
    let ?W = "rewrite_assignment (version_key va) (version_key va @ c_version a lang)"
    have "assigned (flag_key lang) (?W (flag_step lang ?b l)) = None \<or>
          assigned (flag_key lang) (?W (flag_step lang ?b l)) =
            map_option ?W (assigned (flag_key lang) (flag_step lang ?b l))"
      using assms(2) by (intro assigned_rewrite) (simp_all add: flag_version_free)
    moreover have "?W (bool_lower ?b) = bool_lower ?b"
      by (simp add: rewrite_absent)
    ultimately show ?thesis
      using f Some by (auto simp: call_line_def version_step_def)
  qed
qed

lemma assigned_version_flag_step:
  "assigned (version_key va) (flag_step lang b l) =
     map_option (flag_step lang b) (assigned (version_key va) l)"
proof -
  have "\<not> starts_in (version_key va) (flag_key lang @ ''true'')"
    and "\<not> starts_in (flag_key lang @ ''true'') (version_key va)"
    using flag_version_free(3,4) [where b = True and lang = lang and va = va]
    by (simp_all add: bool_lower_def)
  then show ?thesis
    unfolding flag_step_def
    by (intro assigned_replace) (simp_all add: flag_version_free)
qed

lemma second_variant_line_strong:
  assumes "assigned (flag_key lang) l = None \<or> assigned (flag_key lang) l = Some ''true''"
    and "CHR ''A'' \<notin> set (c_version a lang)"
    and "assigned (flag_key lang) l \<noteq> None \<longrightarrow> (\<forall>va. assigned (version_key va) l = None)"
  shows "assigned (flag_key lang) (call_line a lang l) =
           map_option (\<lambda>_. bool_lower (c_enabled a lang)) (assigned (flag_key lang) l)"
proof (cases "assigned (flag_key lang) l")
  case None
  then have "flag_step lang (c_enabled a lang) l = l"
    by (simp add: flag_step_def assigned_None_replace)
  then have "call_line a lang l = l \<or> (\<exists>va v. call_line a lang l = rewrite_assignment (version_key va) (version_key va @ v) l \<and> v = c_version a lang)"
    by (auto simp: call_line_def version_step_def split: option.splits)
  moreover have "assigned (flag_key lang) (rewrite_assignment (version_key va) (version_key va @ c_version a lang) l) = None" for va
    using assigned_rewrite [of "flag_key lang" "version_key va" "version_key va @ c_version a lang" l]
      assms(2) None by (simp add: flag_version_free)
  ultimately show ?thesis using None by auto
next
  case (Some t)
  then have "assigned (version_key va) (flag_step lang (c_enabled a lang) l) = None" for va
    using assms(3) by (simp add: assigned_version_flag_step)
  then have "call_line a lang l = flag_step lang (c_enabled a lang) l"
    by (auto simp: call_line_def version_step_def rewrite_absent split: option.splits)
  then show ?thesis using assms(1) by (simp add: assigned_flag_step)
qed

lemma flag_key_hd [simp]: "hd (flag_key lang) = CHR ''A''"
  by (simp add: flag_key_def)

lemma version_key_hd [simp]: "hd (version_key va) = CHR ''A''"
  by (simp add: version_key_def)

lemma assigned_call_lines:
  assumes "k \<noteq> []" "hd k = CHR ''A''"
  shows "map (assigned k) (call_lines a lang ls) = map (assigned k \<circ> call_line a lang) ls"
  using assms by (simp add: call_lines_eq assigned_uncomment_block)

lemma second_variant_flag:
  assumes "set (flag_literals lang c) \<subseteq> {None, Some ''true''}" "plain (c_version a lang)"
  shows "\<exists>out. configure_call a lang c = Inr out \<and>
           set (flag_literals lang out) \<subseteq> {None, Some (bool_lower (c_enabled a lang))} \<and>
           ((\<forall>l \<in> set (split_nl c). assigned (flag_key lang) l \<noteq> None \<longrightarrow>
                (\<forall>va. assigned (version_key va) l = None)) \<longrightarrow>
            flag_literals lang out =
              map (map_option (\<lambda>_. bool_lower (c_enabled a lang))) (flag_literals lang c))"
proof -
  obtain out where out: "configure_call a lang c = Inr out"
    "split_nl out = call_lines a lang (split_nl c)"
    using split_configure_call [of a lang c] assms(2) by (auto simp: plain_simps)
  have l: "assigned (flag_key lang) l = None \<or> assigned (flag_key lang) l = Some ''true''"
    if "l \<in> set (split_nl c)" for l
    using that assms(1) by (auto simp: flag_literals_def)
  have fl: "flag_literals lang out = map (assigned (flag_key lang) \<circ> call_line a lang) (split_nl c)"
    using out(2) by (simp add: flag_literals_def assigned_call_lines)
  have "set (flag_literals lang out) \<subseteq> {None, Some (bool_lower (c_enabled a lang))}"
  proof
    fix x assume "x \<in> set (flag_literals lang out)"
    then obtain l where "l \<in> set (split_nl c)" "x = assigned (flag_key lang) (call_line a lang l)"
      unfolding fl by auto
    then show "x \<in> {None, Some (bool_lower (c_enabled a lang))}"
      using l [of l] second_variant_line_weak [of lang l a] assms(2) by (auto simp: plain_simps)
  qed
  moreover have "flag_literals lang out =
              map (map_option (\<lambda>_. bool_lower (c_enabled a lang))) (flag_literals lang c)"
    if "\<forall>l \<in> set (split_nl c). assigned (flag_key lang) l \<noteq> None \<longrightarrow>
                (\<forall>va. assigned (version_key va) l = None)"
    using that l second_variant_line_strong [of lang _ a] assms(2) unfolding fl
    by (simp add: plain_simps flag_literals_def)
  ultimately show ?thesis using out(1) by blast
qed

section \<open>The claims about the flag rewrite\<close>

text \<open>
  C1, as stated, fails: both variants look for the literal \<^verbatim>\<open>true\<close> only, so a flag
  that the template sets to \<^verbatim>\<open>false\<close> stays \<^verbatim>\<open>false\<close> when the language is requested.
\<close>

theorem flag_default_false_counterexample:
  "enabled (default_args\<lparr>golang := True\<rparr>) GOLANG \<and>
   transform (default_args\<lparr>golang := True\<rparr>) ''ARG INSTALL_GOLANG=false'' = ''ARG INSTALL_GOLANG=false'' \<and>
   c_enabled (default_copy_args\<lparr>c_golang := True\<rparr>) GOLANG \<and>
   copy_transform (default_copy_args\<lparr>c_golang := True\<rparr>) ''ARG INSTALL_GOLANG=false'' =
     Inr ''ARG INSTALL_GOLANG=false'' \<and>
   flag_literals GOLANG ''ARG INSTALL_GOLANG=false'' = [Some ''false'']"
  by code_simp

text \<open>
  C1, amended: on a template whose lines assign nothing but \<^verbatim>\<open>true\<close> to the flag of
  a language, the configurator of either variant leaves every assignment of that
  flag with the requested literal, for plain version values. The first variant
  keeps every such assignment, and so does the second when no line that assigns the
  flag also holds a version key.
\<close>

theorem flag_rewrite_follows_request:
  assumes "set (flag_literals lang content) \<subseteq> {None, Some ''true''}"
    and "plain (version a lang)" and "plain (c_version ca lang)"
  shows "flag_literals lang (configure a lang content) =
           map (map_option (\<lambda>_. bool_lower (enabled a lang))) (flag_literals lang content)
       \<and> (\<exists>out. configure_call ca lang content = Inr out \<and>
            set (flag_literals lang out) \<subseteq> {None, Some (bool_lower (c_enabled ca lang))} \<and>
            ((\<forall>l \<in> set (split_nl content). assigned (flag_key lang) l \<noteq> None \<longrightarrow>
                 (\<forall>va. assigned (version_key va) l = None)) \<longrightarrow>
             flag_literals lang out =
               map (map_option (\<lambda>_. bool_lower (c_enabled ca lang))) (flag_literals lang content)))"
  using first_variant_flag [OF assms(1,2)] second_variant_flag [OF assms(1,3)] by simp

theorem flag_rewrite_follows_request_witness:
  "set (flag_literals NODEJS flag_template) \<subseteq> {None, Some ''true''} \<and>
   plain (version default_args NODEJS) \<and> plain (c_version default_copy_args NODEJS) \<and>
   flag_literals NODEJS (configure default_args NODEJS flag_template) = [Some ''false'', None] \<and>
   flag_literals NODEJS (configure (default_args\<lparr>nodejs := True\<rparr>) NODEJS flag_template)
     = [Some ''true'', None] \<and>
   configure_call default_copy_args NODEJS flag_template =
     Inr (''ARG INSTALL_NODEJS=false'' @ [nl] @ ''ARG NODE_MAJOR=20'')"
proof -
  have h: "set (flag_literals NODEJS flag_template) \<subseteq> {None, Some ''true''}"
    "plain (version default_args NODEJS)" "plain (c_version default_copy_args NODEJS)"
    "plain (version (default_args\<lparr>nodejs := True\<rparr>) NODEJS)"
    by code_simp+
  have l: "flag_literals NODEJS flag_template = [Some ''true'', None]"
    by code_simp
  have c: "configure_call default_copy_args NODEJS flag_template =
     Inr (''ARG INSTALL_NODEJS=false'' @ [nl] @ ''ARG NODE_MAJOR=20'')"
    by code_simp
  show ?thesis
    using flag_rewrite_follows_request [OF h(1,2,3)]
      flag_rewrite_follows_request [OF h(1,4,3)] h c
    by (simp add: l default_args_def bool_lower_def)
qed

text \<open>
  C9: there is an input on which the variants differ in disabling a component
  whose flag the template sets to \<^verbatim>\<open>true\<close>. On the template line
  \<^verbatim>\<open>ARG GO_VERSION=1 ARG INSTALL_GOLANG=true\<close>, with Go not requested and the version
  value \<^verbatim>\<open>1 ARG INSTALL_GOLANG=true\<close> in both option sets, the first variant writes
  \<^verbatim>\<open>false\<close> into the flag assignment; the second writes \<^verbatim>\<open>false\<close> too, but its rewrite
  of the version, which the first variant makes for an enabled language only, puts
  the version value over the rest of the line, so that its output is the template
  with the literal \<^verbatim>\<open>true\<close>.
\<close>

theorem variants_differ_on_disabling:
  "\<not> enabled keep_args GOLANG \<and> \<not> c_enabled keep_copy_args GOLANG \<and>
   go_version keep_args = c_go_version keep_copy_args \<and>
   flag_literals GOLANG version_flag_line = [Some ''true''] \<and>
   transform keep_args version_flag_line = ''ARG GO_VERSION=1 ARG INSTALL_GOLANG=false'' \<and>
   flag_literals GOLANG (transform keep_args version_flag_line) = [Some ''false''] \<and>
   copy_transform keep_copy_args version_flag_line = Inr version_flag_line"
  by code_simp

section \<open>The version rewrite of the second variant and the install flag\<close>

lemma assigned_version_call_line:
  assumes "version_arg_of lang = Some va" "c_version a lang \<noteq> []"
  shows "assigned (version_key va) (call_line a lang l) =
           map_option (\<lambda>_. c_version a lang) (assigned (version_key va) l)"
proof -
  have "assigned (version_key va) (call_line a lang l) =
          map_option (\<lambda>_. c_version a lang)
            (assigned (version_key va) (flag_step lang (c_enabled a lang) l))"
    using assms by (simp add: call_line_def version_step_def assigned_rewrite_own)
  then show ?thesis
    by (simp add: assigned_version_flag_step option.map_comp comp_def)
qed

text \<open>
  C10, as stated, fails for a version value with a backslash, which \<^verbatim>\<open>re.sub\<close> reads
  as the start of an escape: for \<^verbatim>\<open>--go-version '1\\2'\<close> the line is left with the
  value \<^verbatim>\<open>1\2\<close>, not with the value supplied, and for \<^verbatim>\<open>--go-version '1\d'\<close> the call
  raises, so that \<^verbatim>\<open>main\<close> ends without writing a file, even on a template that has
  no version line. An empty version value, though passed by \<^verbatim>\<open>main\<close>, is not
  substituted at all.
\<close>

theorem version_with_backslash_counterexample:
  "copy_main bad_escape_args matched_world = Inl TemplateError \<and>
   version_arg_of GOLANG = Some GO_VERSION \<and>
   c_version bad_escape_args GOLANG = ''1'' @ [backslash] @ ''d'' \<and>
   configure_call bad_escape_args GOLANG ''FROM ubuntu:22.04'' = Inl TemplateError \<and>
   c_version escaped_backslash_args GOLANG = ''1'' @ [backslash, backslash] @ ''2'' \<and>
   configure_call escaped_backslash_args GOLANG go_template =
     Inr (''ARG INSTALL_GOLANG=false'' @ [nl] @ ''ARG GO_VERSION=1'' @ [backslash] @ ''2'') \<and>
   version_values GO_VERSION
       (''ARG INSTALL_GOLANG=false'' @ [nl] @ ''ARG GO_VERSION=1'' @ [backslash] @ ''2'')
     = [None, Some (''1'' @ [backslash] @ ''2'')] \<and>
   ''1'' @ [backslash] @ ''2'' \<noteq> c_version escaped_backslash_args GOLANG \<and>
   configure_call empty_version_args GOLANG go_template =
     Inr (''ARG INSTALL_GOLANG=false'' @ [nl] @ ''ARG GO_VERSION=1.22.2'')"
proof -
  have t: "copy_transform bad_escape_args go_template = Inl TemplateError"
    by code_simp
  have r: "read_template (c_template bad_escape_args) matched_world = Inr go_template"
    by (simp add: read_template_def bad_escape_args_def matched_world_def empty_world_def)
  have m: "copy_main bad_escape_args matched_world = Inl TemplateError"
    by (simp add: copy_main_def t r)
  have "version_arg_of GOLANG = Some GO_VERSION \<and>
   c_version bad_escape_args GOLANG = ''1'' @ [backslash] @ ''d'' \<and>
   configure_call bad_escape_args GOLANG ''FROM ubuntu:22.04'' = Inl TemplateError \<and>
   c_version escaped_backslash_args GOLANG = ''1'' @ [backslash, backslash] @ ''2'' \<and>
   configure_call escaped_backslash_args GOLANG go_template =
     Inr (''ARG INSTALL_GOLANG=false'' @ [nl] @ ''ARG GO_VERSION=1'' @ [backslash] @ ''2'') \<and>
   version_values GO_VERSION
       (''ARG INSTALL_GOLANG=false'' @ [nl] @ ''ARG GO_VERSION=1'' @ [backslash] @ ''2'')
     = [None, Some (''1'' @ [backslash] @ ''2'')] \<and>
   ''1'' @ [backslash] @ ''2'' \<noteq> c_version escaped_backslash_args GOLANG \<and>
   configure_call empty_version_args GOLANG go_template =
     Inr (''ARG INSTALL_GOLANG=false'' @ [nl] @ ''ARG GO_VERSION=1.22.2'')"
    by code_simp
  with m show ?thesis by (rule conjI)
qed

text \<open>
  C10, amended: \<^verbatim>\<open>main\<close> passes the version argument and the version value of Go,
  Node.js and Java to \<^verbatim>\<open>configure_language\<close> whatever the install flag is, and for a
  value that is not empty and holds neither a backslash nor a newline the call
  returns a text in which every line that assigns the version argument is left with
  that value, whether the language is enabled or not.
\<close>

theorem version_rewritten_whatever_the_flag:
  assumes "version_arg_of lang = Some va" and "c_version a lang \<noteq> []"
    and "nl \<notin> set (c_version a lang)" and "backslash \<notin> set (c_version a lang)"
  shows "configure_call a lang content =
           configure_language content lang (c_enabled a lang) (Some va) (Some (c_version a lang))
       \<and> (\<exists>out. configure_call a lang content = Inr out \<and>
            version_values va out =
              map (map_option (\<lambda>_. c_version a lang)) (version_values va content))"
proof -
  obtain out where out: "configure_call a lang content = Inr out"
    "split_nl out = call_lines a lang (split_nl content)"
    using split_configure_call [OF assms(3,4)] by blast
  have "version_values va out = map (assigned (version_key va) \<circ> call_line a lang) (split_nl content)"
    using out(2) by (simp add: version_values_def assigned_call_lines)
  then have "version_values va out =
              map (map_option (\<lambda>_. c_version a lang)) (version_values va content)"
    using assms(1,2) by (simp add: version_values_def assigned_version_call_line)
  then show ?thesis
    using out(1) assms(1) by (simp add: configure_call_eq)
qed

theorem version_rewritten_whatever_the_flag_witness:
  "version_arg_of GOLANG = Some GO_VERSION \<and>
   \<not> c_enabled (default_copy_args\<lparr>c_go_version := ''1.21.0''\<rparr>) GOLANG \<and>
   c_version (default_copy_args\<lparr>c_go_version := ''1.21.0''\<rparr>) GOLANG = ''1.21.0'' \<and>
   configure_call (default_copy_args\<lparr>c_go_version := ''1.21.0''\<rparr>) GOLANG go_template =
     Inr (''ARG INSTALL_GOLANG=false'' @ [nl] @ ''ARG GO_VERSION=1.21.0'') \<and>
   version_values GO_VERSION go_template = [None, Some ''1.22.2''] \<and>
   version_values GO_VERSION (''ARG INSTALL_GOLANG=false'' @ [nl] @ ''ARG GO_VERSION=1.21.0'')
     = [None, Some ''1.21.0'']"
proof -
  let ?a = "default_copy_args\<lparr>c_go_version := ''1.21.0''\<rparr>"
  have h: "version_arg_of GOLANG = Some GO_VERSION" "c_version ?a GOLANG \<noteq> []"
    "nl \<notin> set (c_version ?a GOLANG)" "backslash \<notin> set (c_version ?a GOLANG)"
    by code_simp+
  have c: "\<not> c_enabled ?a GOLANG" "c_version ?a GOLANG = ''1.21.0''"
    "configure_call ?a GOLANG go_template =
       Inr (''ARG INSTALL_GOLANG=false'' @ [nl] @ ''ARG GO_VERSION=1.21.0'')"
    "version_values GO_VERSION go_template = [None, Some ''1.22.2'']"
    by code_simp+
  show ?thesis
    using version_rewritten_whatever_the_flag [OF h, of go_template] c by auto
qed

section \<open>A component without markers in the template\<close>

lemma replace_absent: "\<not> sublist old s \<Longrightarrow> replace old new s = s"
proof (induction s)
  case Nil
  then show ?case by simp
next
  case (Cons x s)
  then have "old \<noteq> []" "\<not> prefix old (x # s)" "\<not> sublist old s"
    by (auto simp: sublist_Cons_right)
  then show ?case using Cons by (simp add: replace_Cons)
qed

lemma replace_absent_part:
  "\<not> sublist m s \<Longrightarrow> sublist m old \<Longrightarrow> replace old new s = s"
  using replace_absent sublist_order.order_trans by blast

lemma assigned_None_iff: "k \<noteq> [] \<Longrightarrow> assigned k l = None \<longleftrightarrow> \<not> sublist k l"
  by (induction l) (auto simp: sublist_Cons_right)

lemma sublist_line: "l \<in> set (split_nl s) \<Longrightarrow> sublist l s"
proof (induction s arbitrary: l)
  case Nil
  then show ?case by simp
next
  case (Cons c s)
  obtain k ks where e: "split_nl s = k # ks" by (cases "split_nl s") auto
  have k: "prefix k s"
    using e
  proof (induction s arbitrary: k ks)
    case Nil
    then show ?case by simp
  next
    case (Cons d s)
    obtain k' ks' where "split_nl s = k' # ks'" by (cases "split_nl s") auto
    then show ?case using Cons by (auto split: if_splits)
  qed
  show ?case
  proof (cases "c = nl")
    case True
    then show ?thesis using Cons by (auto simp: sublist_Cons_right)
  next
    case False
    then have "l = c # k \<or> l \<in> set ks" using Cons.prems e by auto
    then show ?thesis
    proof
      assume "l = c # k"
      then show ?thesis using k by (simp add: sublist_Cons_right)
    next
      assume "l \<in> set ks"
      then have "sublist l s" using Cons.IH e by simp
      then show ?thesis by (simp add: sublist_Cons_right)
    qed
  qed
qed

lemma on_lines_id: "(\<And>l. l \<in> set (split_nl s) \<Longrightarrow> f l = l) \<Longrightarrow> on_lines (map f) s = s"
  by (simp add: on_lines_def map_idI)

lemma uncomment_block_absent:
  "\<forall>l \<in> set ls. \<not> prefix st l \<Longrightarrow> uncomment_block st ls = ls"
  by (induction st ls rule: uncomment_block.induct) auto

lemma fold_print_stdout: "stdout (fold print xs w) = stdout w @ xs"
  by (simp add: fold_print)


lemma install_name_in_flag: "sublist (''INSTALL_'' @ lang_name lang) (flag_key lang @ t)"
proof -
  have "flag_key lang @ t = ''ARG '' @ (''INSTALL_'' @ lang_name lang) @ (''='' @ t)"
    by (simp add: flag_key_def)
  then show ?thesis unfolding sublist_def by blast
qed

lemma install_name_in_start: "sublist (''INSTALL_'' @ lang_name lang) (block_start lang)"
proof -
  have "block_start lang =
      [CHR ''#'', CHR '' '', CHR ''R'', CHR ''U'', CHR ''N'', CHR '' '', CHR ''i'', CHR ''f'',
       CHR '' '', CHR ''['', CHR '' '', CHR 0x22, CHR ''$'']
      @ (''INSTALL_'' @ lang_name lang) @
      ([CHR 0x22, CHR '' '', CHR ''='', CHR '' '', CHR 0x22, CHR ''t'', CHR ''r'', CHR ''u'',
        CHR ''e'', CHR 0x22, CHR '' '', CHR '']'', CHR '';'', CHR '' '', CHR ''t'', CHR ''h'',
        CHR ''e'', CHR ''n'', CHR '' ''] @ [backslash])"
    by (simp add: block_start_def)
  then show ?thesis unfolding sublist_def by blast
qed

lemma version_key_in_default: "sublist (version_key va) (default_assignment va)"
  by (cases va) (simp_all add: version_key_def sublist_Cons_right)

lemma first_variant_absent:
  assumes "\<not> sublist (''INSTALL_'' @ lang_name lang) c"
    and "\<forall>va. version_arg_of lang = Some va \<longrightarrow> \<not> sublist (version_key va) c"
  shows "configure a lang c = c"
proof -
  have "flag_step lang False c = c"
    unfolding flag_step_def using assms(1) install_name_in_flag replace_absent_part by blast
  moreover have "replace (default_assignment va) new c = c" if "version_arg_of lang = Some va" for va new
    using that assms(2) version_key_in_default replace_absent_part by blast
  ultimately show ?thesis
    by (simp add: configure_eq split: option.splits)
qed

lemma second_variant_absent:
  assumes "\<not> sublist (''INSTALL_'' @ lang_name lang) c"
    and "\<forall>va. version_arg_of lang = Some va \<longrightarrow> \<not> sublist (version_key va) c"
    and "backslash \<notin> set (c_version a lang)"
  shows "configure_call a lang c = Inr c"
proof -
  have f: "flag_step lang b c = c" for b
    unfolding flag_step_def using assms(1) install_name_in_flag replace_absent_part by blast
  have v: "on_lines (map (version_step va vv)) c = c" if "version_arg_of lang = Some va" for va vv
  proof (rule on_lines_id)
    fix l assume "l \<in> set (split_nl c)"
    then have "\<not> sublist (version_key va) l"
      using that assms(2) sublist_line sublist_order.order_trans by blast
    then show "version_step va vv l = l"
      by (simp add: version_step_def rewrite_absent assigned_None_iff)
  qed
  have "\<forall>l \<in> set (split_nl c). \<not> prefix (block_start lang) l"
  proof
    fix l assume l: "l \<in> set (split_nl c)"
    show "\<not> prefix (block_start lang) l"
    proof
      assume "prefix (block_start lang) l"
      then have "sublist (''INSTALL_'' @ lang_name lang) l"
        using install_name_in_start prefix_imp_sublist sublist_order.order_trans by blast
      then show False
        using l assms(1) sublist_line sublist_order.order_trans by blast
    qed
  qed
  then have u: "on_lines (uncomment_block (block_start lang)) c = c"
    by (simp add: on_lines_def uncomment_block_absent)
  show ?thesis
    using assms(3) f u v
    by (cases "version_arg_of lang") (auto simp: configure_call_eq configure_language_eq)
qed

lemma configure_call_ok:
  "backslash \<notin> set (c_version a lang) \<Longrightarrow> \<exists>out. configure_call a lang c = Inr out"
  by (cases "version_arg_of lang") (simp_all add: configure_call_eq configure_language_eq)

lemma copy_transform_ok:
  assumes "backslash \<notin> set (c_go_version a) \<union> set (c_node_version a) \<union> set (c_java_version a)"
  shows "\<exists>out. copy_transform a c = Inr out"
proof -
  have b: "backslash \<notin> set (c_version a lang)" for lang
    using assms by (cases lang) auto
  obtain c1 where 1: "configure_call a GOLANG (configure_base_os c (c_os a)) = Inr c1"
    using configure_call_ok [OF b] by blast
  obtain c2 where 2: "configure_call a RUST c1 = Inr c2"
    using configure_call_ok [OF b] by blast
  obtain c3 where 3: "configure_call a PYTHON c2 = Inr c3"
    using configure_call_ok [OF b] by blast
  obtain c4 where 4: "configure_call a NODEJS c3 = Inr c4"
    using configure_call_ok [OF b] by blast
  obtain c5 where 5: "configure_call a JAVA c4 = Inr c5"
    using configure_call_ok [OF b] by blast
  show ?thesis
    unfolding copy_transform_def source_order_def using 1 2 3 4 5 by simp
qed

text \<open>
  C7, as stated, fails in its second half: both variants print their report from
  the options alone. With Go requested and a template without any marker of Go, the
  report is the one printed for a template that has them, and it lists Go.
\<close>

theorem report_ignores_template_counterexample:
  "\<not> sublist ''INSTALL_GOLANG'' ''FROM ubuntu:22.04'' \<and>
   \<not> sublist ''ARG GO_VERSION='' ''FROM ubuntu:22.04'' \<and>
   enabled go_args GOLANG \<and>
   stdout (snd (generate_dockerfile go_args unmatched_world)) =
     stdout (snd (generate_dockerfile go_args matched_world)) \<and>
   ''Included languages: Go 1.22.2'' \<in> set (stdout (snd (generate_dockerfile go_args unmatched_world))) \<and>
   c_enabled go_copy_args GOLANG \<and>
   map_sum id (stdout \<circ> snd) (copy_main go_copy_args unmatched_world) =
     map_sum id (stdout \<circ> snd) (copy_main go_copy_args matched_world) \<and>
   map_sum id (\<lambda>r. stdout (snd r) ! 3) (copy_main go_copy_args unmatched_world) =
     Inr ''  Golang: true (version 1.22.2)''"
  by code_simp

text \<open>
  C7, amended: when none of the markers of a component occurs in the template (the
  name \<^verbatim>\<open>INSTALL_<NAME>\<close>, which the flag assignment and the conditional block
  hold, and the key of its version argument), the configurator call of either
  variant returns the text unchanged and does not raise (second variant: for
  version values without a backslash). The report is printed from the options
  alone, whatever the template holds.
\<close>

theorem unmatched_component_is_silent:
  assumes "\<not> sublist (''INSTALL_'' @ lang_name lang) content"
    and "\<forall>va. version_arg_of lang = Some va \<longrightarrow> \<not> sublist (version_key va) content"
    and "backslash \<notin> set (c_go_version ca) \<union> set (c_node_version ca) \<union> set (c_java_version ca)"
    and "files w (template a) = Some (File content)" and "unwritable w (output_file a) = None"
    and "files w (c_template ca) = Some (File content)" and "unwritable w (c_output ca) = None"
  shows "configure a lang content = content
       \<and> configure_call ca lang content = Inr content
       \<and> stdout (snd (generate_dockerfile a w)) = stdout w @ report (enable_all a)
       \<and> (\<exists>w'. copy_main ca w = Inr (0, w') \<and> stdout w' = stdout w @ summary ca)"
proof -
  have b: "backslash \<notin> set (c_version ca lang)"
    using assms(3) by (cases lang) auto
  obtain out where out: "copy_transform ca content = Inr out"
    using copy_transform_ok [OF assms(3)] by blast
  have "stdout (snd (generate_dockerfile a w)) = stdout w @ report (enable_all a)"
    using assms(4,5) by (simp add: generate_dockerfile_def fold_print write_text_def)
  moreover have "\<exists>w'. copy_main ca w = Inr (0, w') \<and> stdout w' = stdout w @ summary ca"
    using assms(6,7) out
    by (simp add: copy_main_def read_template_def write_dockerfile_def fold_print write_text_def)
  ultimately show ?thesis
    using first_variant_absent [OF assms(1,2)] second_variant_absent [OF assms(1,2) b] by simp
qed

theorem unmatched_component_is_silent_witness:
  "\<not> sublist (''INSTALL_'' @ lang_name GOLANG) ''FROM ubuntu:22.04'' \<and>
   \<not> sublist (version_key GO_VERSION) ''FROM ubuntu:22.04'' \<and>
   files unmatched_world (template go_args) = Some (File ''FROM ubuntu:22.04'') \<and>
   files unmatched_world (c_template go_copy_args) = Some (File ''FROM ubuntu:22.04'') \<and>
   configure go_args GOLANG ''FROM ubuntu:22.04'' = ''FROM ubuntu:22.04'' \<and>
   configure_call go_copy_args GOLANG ''FROM ubuntu:22.04'' = Inr ''FROM ubuntu:22.04'' \<and>
   stdout (snd (generate_dockerfile go_args unmatched_world)) = report go_args"
proof -
  have h: "\<not> sublist (''INSTALL_'' @ lang_name GOLANG) ''FROM ubuntu:22.04''"
    "\<not> sublist (version_key GO_VERSION) ''FROM ubuntu:22.04''"
    "backslash \<notin> set (c_go_version go_copy_args) \<union> set (c_node_version go_copy_args)
       \<union> set (c_java_version go_copy_args)"
    "files unmatched_world (template go_args) = Some (File ''FROM ubuntu:22.04'')"
    "unwritable unmatched_world (output_file go_args) = None"
    "files unmatched_world (c_template go_copy_args) = Some (File ''FROM ubuntu:22.04'')"
    "unwritable unmatched_world (c_output go_copy_args) = None"
    by code_simp+
  have v: "\<forall>va. version_arg_of GOLANG = Some va \<longrightarrow> \<not> sublist (version_key va) ''FROM ubuntu:22.04''"
    using h(2) by simp
  have e: "enable_all go_args = go_args" "stdout unmatched_world = []"
    by (simp_all add: enable_all_def go_args_def default_args_def unmatched_world_def empty_world_def)
  show ?thesis
    using unmatched_component_is_silent [OF h(1) v h(3-7)] h e by simp
qed

section \<open>Markers inside larger lines\<close>

lemma line_local_replace: "old \<noteq> [] \<Longrightarrow> nl \<notin> set old \<Longrightarrow> line_local (replace old new)"
  by (simp add: line_local_def replace_nl)

lemma line_local_comp: "line_local f \<Longrightarrow> line_local g \<Longrightarrow> line_local (f \<circ> g)"
  by (simp add: line_local_def)

lemma line_local_id: "line_local (\<lambda>s. s)"
  by (simp add: line_local_def)

lemma line_local_select_base: "line_local (select_base b)"
proof (cases b)
  case ubuntu
  have "select_base ubuntu =
      replace ''# RUN apt-get update'' ''RUN apt-get update'' \<circ>
      replace ''#FROM ubuntu:22.04'' ''FROM ubuntu:22.04''"
    by (simp add: fun_eq_iff select_base_def)
  moreover have "line_local \<dots>"
    by (intro line_local_comp line_local_replace) (simp_all add: nl_def)
  ultimately show ?thesis using ubuntu by simp
next
  case alpine
  have \<open>select_base alpine =
      replace ''# For Alpine, use "/bin/ash" instead of "/bin/bash"'' ''CMD ["/bin/ash"]'' \<circ>
      replace ''CMD ["/bin/bash"]'' ''# CMD ["/bin/bash"]'' \<circ>
      replace ''# RUN apk update'' ''RUN apk update'' \<circ>
      replace ''# FROM alpine:latest'' ''FROM alpine:latest'' \<circ>
      replace ''FROM ubuntu:22.04'' ''# FROM ubuntu:22.04''\<close>
    by (simp add: fun_eq_iff select_base_def)
  moreover have "line_local \<dots>"
    by (intro line_local_comp line_local_replace) (simp_all add: nl_def)
  ultimately show ?thesis using alpine by simp
qed

lemma line_local_configure: "line_local (configure a lang)"
proof -
  have f: "line_local (flag_step lang b)" for b
    unfolding flag_step_def using flag_key_simps(2) [of lang]
    by (intro line_local_replace) (simp_all add: nl_def)
  have r: "line_local (replace (default_assignment va) new)" for va new
    by (intro line_local_replace) simp_all
  show ?thesis
  proof (cases "enabled a lang")
    case False
    then have "configure a lang = flag_step lang False"
      by (simp add: fun_eq_iff configure_eq)
    then show ?thesis using f by simp
  next
    case True
    show ?thesis
    proof (cases "version_arg_of lang")
      case None
      then have "configure a lang = (\<lambda>s. s)"
        using True by (simp add: fun_eq_iff configure_eq)
      then show ?thesis by (simp add: line_local_id)
    next
      case (Some va)
      then have "configure a lang = replace (default_assignment va) (version_key va @ version a lang)"
        using True by (simp add: fun_eq_iff configure_eq)
      then show ?thesis using r by simp
    qed
  qed
qed

lemma line_local_transform: "line_local (transform a)"
proof -
  have "transform a = configure (enable_all a) JAVA \<circ> configure (enable_all a) NODEJS \<circ>
          configure (enable_all a) PYTHON \<circ> configure (enable_all a) RUST \<circ>
            configure (enable_all a) GOLANG \<circ> select_base (base a)"
    by (simp add: fun_eq_iff transform_def source_order_def)
  moreover have "line_local \<dots>"
    by (intro line_local_comp line_local_configure line_local_select_base)
  ultimately show ?thesis by simp
qed

lemma transform_unmarked:
  assumes "\<forall>m \<in> set markers. \<not> sublist m l"
  shows "transform a l = l"
proof -
  have "select_base b l = l" for b
    using assms by (cases b) (simp_all add: select_base_def markers_def replace_absent)
  moreover have "configure a' lang l = l" for a' lang
    using assms
    by (cases lang) (simp_all add: set_flag_def markers_def replace_absent replace_same)
  ultimately show ?thesis
    by (simp add: transform_def source_order_def)
qed

lemma call_line_unmarked: "unmarked lang l \<Longrightarrow> call_line a lang l = l"
  by (cases "version_arg_of lang")
    (simp_all add: call_line_def unmarked_def flag_step_def replace_absent version_step_def
      rewrite_absent assigned_None_iff)

lemma call_lines_unmarked:
  "list_all2 (\<lambda>l l'. unmarked lang l \<longrightarrow> l' = l) ls (call_lines a lang ls)"
proof -
  let ?xs = "map (call_line a lang) ls"
  have r: "list_all2 (\<lambda>l' x. l' = x \<or> (prefix (block_start lang) x \<and> l' = drop 2 x))
          (call_lines a lang ls) ?xs"
    using uncomment_block_rel [of "block_start lang" ?xs]
    by (simp add: call_lines_eq list_all2_refl)
  then have n: "length (call_lines a lang ls) = length ls"
    by (auto dest: list_all2_lengthD)
  have "call_lines a lang ls ! i = ls ! i" if "i < length ls" "unmarked lang (ls ! i)" for i
  proof -
    have x: "?xs ! i = ls ! i" using that by (simp add: call_line_unmarked)
    have "call_lines a lang ls ! i = ?xs ! i \<or> prefix (block_start lang) (?xs ! i)"
      using r that(1) n by (auto simp: list_all2_conv_all_nth)
    then show ?thesis using x that(2) by (auto simp: unmarked_def)
  qed
  then show ?thesis using n by (simp add: list_all2_conv_all_nth)
qed

text \<open>
  C6, as stated, fails: the markers are matched as substrings, so a marker inside a
  larger line is rewritten there.
\<close>

theorem marker_inside_line_counterexample:
  "transform default_args ''RUN echo ARG INSTALL_GOLANG=true >> log''
     = ''RUN echo ARG INSTALL_GOLANG=false >> log'' \<and>
   copy_transform default_copy_args ''RUN echo ARG INSTALL_GOLANG=true >> log''
     = Inr ''RUN echo ARG INSTALL_GOLANG=false >> log''"
  by code_simp

text \<open>
  C6, amended: matching is by substring, not by whole line. The first variant
  transforms every line on its own and leaves a line unchanged when it holds none
  of the texts it looks for; a configurator call of the second variant leaves a
  line unchanged when it holds neither the flag marker nor a version key and does
  not begin with the commented test of the conditional block.
\<close>

theorem lines_without_markers_unchanged:
  "transform a (x @ [nl] @ y) = transform a x @ [nl] @ transform a y
   \<and> ((\<forall>m \<in> set markers. \<not> sublist m l) \<longrightarrow> transform a l = l)
   \<and> (nl \<notin> set (c_version ca lang) \<longrightarrow> backslash \<notin> set (c_version ca lang) \<longrightarrow>
        (\<exists>out. configure_call ca lang content = Inr out \<and>
           list_all2 (\<lambda>l l'. unmarked lang l \<longrightarrow> l' = l) (split_nl content) (split_nl out)))"
proof -
  have "\<exists>out. configure_call ca lang content = Inr out \<and>
           list_all2 (\<lambda>l l'. unmarked lang l \<longrightarrow> l' = l) (split_nl content) (split_nl out)"
    if "nl \<notin> set (c_version ca lang)" "backslash \<notin> set (c_version ca lang)"
    using split_configure_call [OF that, of content] call_lines_unmarked [of lang "split_nl content" ca]
    by auto
  then show ?thesis
    using line_local_transform [of a] transform_unmarked [of l a]
    by (simp add: line_local_def)
qed

theorem lines_without_markers_unchanged_witness:
  "list_all (\<lambda>m. \<not> sublist m ''RUN echo hello'') markers \<and>
   transform default_args ''RUN echo hello'' = ''RUN echo hello'' \<and>
   transform default_args two_lines = ''RUN echo hello'' @ [nl] @ ''ARG INSTALL_RUST=false'' \<and>
   configure_call default_copy_args RUST two_lines
     = Inr (''RUN echo hello'' @ [nl] @ ''ARG INSTALL_RUST=false'')"
proof -
  have h: "list_all (\<lambda>m. \<not> sublist m ''RUN echo hello'') markers"
    "nl \<notin> set (c_version default_copy_args RUST)"
    "backslash \<notin> set (c_version default_copy_args RUST)"
    by code_simp+
  have m: "\<forall>m \<in> set markers. \<not> sublist m ''RUN echo hello''"
    using h(1) by (simp add: list_all_iff)
  have c: "transform default_args ''ARG INSTALL_RUST=true'' = ''ARG INSTALL_RUST=false''"
    "configure_call default_copy_args RUST two_lines
       = Inr (''RUN echo hello'' @ [nl] @ ''ARG INSTALL_RUST=false'')"
    by code_simp+
  show ?thesis
    using lines_without_markers_unchanged [of default_args "''RUN echo hello''"
        "''ARG INSTALL_RUST=true''" "''RUN echo hello''" default_copy_args RUST two_lines]
      h m c
    by (simp add: two_lines_def)
qed

section \<open>The region toggler of the second variant\<close>

lemma comment_ubuntu_rel:
  "list_all2 (\<lambda>l' l. l' = l \<or> l' = comment l) (comment_ubuntu ls) ls"
proof (induction ls rule: comment_ubuntu.induct)
  case 1
  then show ?case by simp
next
  case (2 l ls)
  let ?R = "\<lambda>l' l. l' = l \<or> l' = comment l"
  show ?case
  proof (cases "prefix ''FROM ubuntu'' l \<and> [] \<in> set ls")
    case True
    let ?t = "takeWhile (\<lambda>x. x \<noteq> []) ls"
    let ?d = "tl (dropWhile (\<lambda>x. x \<noteq> []) ls)"
    have ls: "ls = ?t @ [] # ?d" using True split_at_first by fastforce
    have "list_all2 ?R (comment_ubuntu ?d) ?d" using 2(1) True by simp
    moreover have "list_all2 ?R (map comment xs) xs" for xs
      by (induction xs) simp_all
    then have "list_all2 ?R (map comment (l # ?t)) (l # ?t)" .
    ultimately have "list_all2 ?R (map comment (l # ?t) @ comment [] # comment_ubuntu ?d)
                 ((l # ?t) @ [] # ?d)"
      by (intro list_all2_appendI) simp_all
    then show ?thesis using True ls by simp
  next
    case False
    then show ?thesis using 2(2) by auto
  qed
qed

lemma length_comment_ubuntu [simp]: "length (comment_ubuntu ls) = length ls"
  using comment_ubuntu_rel [of ls] by (rule list_all2_lengthD)

lemma proper_comment_ubuntu: "proper_lines ls \<Longrightarrow> proper_lines (comment_ubuntu ls)"
proof -
  assume p: "proper_lines ls"
  have "\<forall>l' \<in> set (comment_ubuntu ls). nl \<notin> set l'"
  proof
    fix l' assume "l' \<in> set (comment_ubuntu ls)"
    then obtain l where "l \<in> set ls" "l' = l \<or> l' = comment l"
      using comment_ubuntu_rel [of ls] by (auto simp: list_all2_conv_all_nth in_set_conv_nth)
    then show "nl \<notin> set l'" using p by (auto simp: proper_lines_def comment_def nl_def)
  qed
  moreover have "comment_ubuntu ls \<noteq> []"
    using p length_comment_ubuntu [of ls]
    by (auto simp: proper_lines_def simp del: length_comment_ubuntu)
  ultimately show ?thesis by (simp add: proper_lines_def)
qed

lemma proper_uncomment_line:
  "proper_lines ls \<Longrightarrow> proper_lines (map (uncomment_line m) ls)"
  by (auto simp: proper_lines_def uncomment_line_def dest: in_set_dropD)

lemma cmd_simps [simp]: "cmd_bash \<noteq> []" "nl \<notin> set cmd_bash" "nl \<notin> set cmd_ash"
  "\<not> starts_in cmd_ash cmd_bash" "\<not> starts_in cmd_bash cmd_ash"
  by (simp_all add: cmd_bash_def cmd_ash_def nl_def)

lemma configure_base_os_lines: "configure_base_os c alpine = on_lines base_lines c"
proof -
  let ?u2 = "map (uncomment_line ''FROM alpine'')"
  let ?u3 = "map (uncomment_line ''RUN apk update'')"
  let ?r = "map (replace cmd_bash cmd_ash)"
  have p1: "proper_lines (comment_ubuntu (split_nl c))"
    by (simp add: proper_comment_ubuntu)
  have p2: "proper_lines ((?u2 \<circ> comment_ubuntu) (split_nl c))"
    using p1 by (simp add: proper_uncomment_line del: map_map)
  have p3: "proper_lines ((?u3 \<circ> (?u2 \<circ> comment_ubuntu)) (split_nl c))"
    using p2 proper_uncomment_line by (simp del: map_map)
  have "configure_base_os c alpine =
      replace cmd_bash cmd_ash (on_lines ?u3 (on_lines ?u2 (on_lines comment_ubuntu c)))"
    by (simp add: configure_base_os_def cmd_bash_def cmd_ash_def)
  also have "\<dots> = on_lines ?r (on_lines ?u3 (on_lines ?u2 (on_lines comment_ubuntu c)))"
    by (intro replace_on_lines) simp_all
  also have "on_lines ?u2 (on_lines comment_ubuntu c) = on_lines (?u2 \<circ> comment_ubuntu) c"
    using p1 by (rule on_lines_on_lines)
  also have "on_lines ?u3 (on_lines (?u2 \<circ> comment_ubuntu) c)
      = on_lines (?u3 \<circ> (?u2 \<circ> comment_ubuntu)) c"
    using p2 by (rule on_lines_on_lines)
  also have "on_lines ?r (on_lines (?u3 \<circ> (?u2 \<circ> comment_ubuntu)) c)
      = on_lines (?r \<circ> (?u3 \<circ> (?u2 \<circ> comment_ubuntu))) c"
    using p3 by (rule on_lines_on_lines)
  also have "?r \<circ> (?u3 \<circ> (?u2 \<circ> comment_ubuntu)) = base_lines"
    by (simp add: fun_eq_iff base_lines_def activate_def)
  finally show ?thesis .
qed

lemma proper_base_lines: "proper_lines ls \<Longrightarrow> proper_lines (base_lines ls)"
proof -
  assume "proper_lines ls"
  then have "proper_lines (map (uncomment_line ''RUN apk update'')
      (map (uncomment_line ''FROM alpine'') (comment_ubuntu ls)))"
    by (intro proper_uncomment_line proper_comment_ubuntu)
  then have "proper_lines (map (replace cmd_bash cmd_ash) (map (uncomment_line ''RUN apk update'')
      (map (uncomment_line ''FROM alpine'') (comment_ubuntu ls))))"
    by (intro proper_map_replace) simp_all
  then show ?thesis by (simp add: base_lines_def activate_def [abs_def] comp_def)
qed


lemma replace_eq_Nil: "old \<noteq> [] \<Longrightarrow> new \<noteq> [] \<Longrightarrow> replace old new s = [] \<Longrightarrow> s = []"
proof (cases s)
  case Nil
  then show ?thesis by simp
next
  case (Cons x s')
  assume "old \<noteq> []" "new \<noteq> []" "replace old new s = []"
  then show ?thesis
    using Cons by (cases "prefix old s") (auto simp: replace_Cons replace_prefix prefix_def)
qed

lemma prefix_uncomment_lineD:
  "\<not> prefix p m \<Longrightarrow> \<not> prefix m p \<Longrightarrow> prefix p (uncomment_line m x) \<Longrightarrow> prefix p x"
proof -
  assume a: "\<not> prefix p m" "\<not> prefix m p" "prefix p (uncomment_line m x)"
  show ?thesis
  proof (cases "prefix (''# '' @ m) x")
    case True
    then have "prefix m (drop 2 x)" by (auto simp: prefix_def)
    moreover have "prefix p (drop 2 x)" using a(3) True by (simp add: uncomment_line_def)
    ultimately have "prefix p m \<or> prefix m p" using prefix_same_cases by blast
    then show ?thesis using a by simp
  next
    case False
    then show ?thesis using a(3) by (simp add: uncomment_line_def)
  qed
qed

lemma uncomment_line_settled:
  assumes "m \<noteq> []" "hd m \<noteq> CHR ''#''"
  shows "\<not> prefix (''# '' @ m) (uncomment_line m l)"
proof
  assume p: "prefix (''# '' @ m) (uncomment_line m l)"
  show False
  proof (cases "prefix (''# '' @ m) l")
    case True
    then have "prefix m (drop 2 l)" by (auto simp: prefix_def)
    moreover have "prefix (''# '' @ m) (drop 2 l)" using p True by (simp add: uncomment_line_def)
    ultimately have "prefix m (''# '' @ m) \<or> prefix (''# '' @ m) m"
      using prefix_same_cases by blast
    then show False using assms by (cases m) (auto simp: prefix_def)
  next
    case False
    then show False using p by (simp add: uncomment_line_def)
  qed
qed

lemma uncomment_line_eq_Nil: "m \<noteq> [] \<Longrightarrow> uncomment_line m l = [] \<Longrightarrow> l = []"
  by (auto simp: uncomment_line_def prefix_def split: if_splits)

lemma prefix_activateD:
  assumes "\<not> starts_in p cmd_ash"
    and "\<not> prefix p ''RUN apk update''" "\<not> prefix ''RUN apk update'' p"
    and "\<not> prefix p ''FROM alpine''" "\<not> prefix ''FROM alpine'' p"
    and "prefix p (activate l)"
  shows "prefix p l"
proof -
  have "prefix p (uncomment_line ''RUN apk update'' (uncomment_line ''FROM alpine'' l))"
    using assms(1,6) prefix_replaceD [of p cmd_ash cmd_bash] by (simp add: activate_def)
  then have "prefix p (uncomment_line ''FROM alpine'' l)"
    using assms(2,3) prefix_uncomment_lineD by blast
  then show ?thesis
    using assms(4,5) prefix_uncomment_lineD by blast
qed

lemma activate_eq_Nil: "activate l = [] \<Longrightarrow> l = []"
proof -
  assume "activate l = []"
  then have "uncomment_line ''RUN apk update'' (uncomment_line ''FROM alpine'' l) = []"
    using replace_eq_Nil [of cmd_bash cmd_ash] by (simp add: activate_def cmd_ash_def)
  then have "uncomment_line ''FROM alpine'' l = []"
    using uncomment_line_eq_Nil [of "''RUN apk update''"] by simp
  then show ?thesis
    using uncomment_line_eq_Nil [of "''FROM alpine''"] by simp
qed

lemma activate_idem: "activate (activate l) = activate l"
proof -
  let ?y = "uncomment_line ''RUN apk update'' (uncomment_line ''FROM alpine'' l)"
  have 1: "\<not> prefix ''# FROM alpine'' (activate l)"
  proof
    assume "prefix ''# FROM alpine'' (activate l)"
    then have "prefix ''# FROM alpine'' ?y"
      using prefix_replaceD [of "''# FROM alpine''" cmd_ash cmd_bash]
      by (simp add: activate_def cmd_ash_def)
    then have "prefix ''# FROM alpine'' (uncomment_line ''FROM alpine'' l)"
      using prefix_uncomment_lineD [of "''# FROM alpine''" "''RUN apk update''"] by simp
    then show False
      using uncomment_line_settled [of "''FROM alpine''" l] by simp
  qed
  have 2: "\<not> prefix ''# RUN apk update'' (activate l)"
  proof
    assume "prefix ''# RUN apk update'' (activate l)"
    then have "prefix ''# RUN apk update'' ?y"
      using prefix_replaceD [of "''# RUN apk update''" cmd_ash cmd_bash]
      by (simp add: activate_def cmd_ash_def)
    then show False
      using uncomment_line_settled [of "''RUN apk update''" "uncomment_line ''FROM alpine'' l"]
      by simp
  qed
  have "activate (activate l) = replace cmd_bash cmd_ash (activate l)"
    using 1 2 by (simp add: activate_def [of "activate l"] uncomment_line_def)
  also have "\<dots> = activate l"
    unfolding activate_def by (rule replace_idem) simp_all
  finally show ?thesis .
qed

lemma not_region_comment_ubuntu_id: "\<not> ubuntu_region ls \<Longrightarrow> comment_ubuntu ls = ls"
  by (induction ls) auto

lemma empty_comment_ubuntu: "[] \<in> set (comment_ubuntu ls) \<Longrightarrow> [] \<in> set ls"
proof -
  assume "[] \<in> set (comment_ubuntu ls)"
  then obtain i where i: "i < length ls" "comment_ubuntu ls ! i = []"
    by (auto simp: in_set_conv_nth)
  then have "ls ! i = [] \<or> comment (ls ! i) = []"
    using comment_ubuntu_rel [of ls] by (auto simp: list_all2_conv_all_nth)
  then have "ls ! i = []" by (simp add: comment_def)
  then show ?thesis using i(1) by (metis nth_mem)
qed

lemma region_append_other:
  "\<forall>x \<in> set cs. \<not> prefix ''FROM ubuntu'' x \<Longrightarrow> ubuntu_region (cs @ zs) = ubuntu_region zs"
  by (induction cs) auto

lemma not_region_comment_ubuntu: "\<not> ubuntu_region (comment_ubuntu ls)"
proof (induction ls rule: comment_ubuntu.induct)
  case 1
  then show ?case by simp
next
  case (2 l ls)
  show ?case
  proof (cases "prefix ''FROM ubuntu'' l \<and> [] \<in> set ls")
    case True
    let ?cs = "map comment (l # takeWhile (\<lambda>x. x \<noteq> []) ls) @ [comment []]"
    have "\<forall>x \<in> set ?cs. \<not> prefix ''FROM ubuntu'' x"
      by (auto simp: comment_def)
    then have "ubuntu_region (?cs @ comment_ubuntu (tl (dropWhile (\<lambda>x. x \<noteq> []) ls)))
        = ubuntu_region (comment_ubuntu (tl (dropWhile (\<lambda>x. x \<noteq> []) ls)))"
      by (rule region_append_other)
    then show ?thesis using True 2(1) by simp
  next
    case False
    then show ?thesis using 2(2) empty_comment_ubuntu [of ls] by auto
  qed
qed

lemma not_region_map:
  assumes "\<And>l. prefix ''FROM ubuntu'' (f l) \<Longrightarrow> prefix ''FROM ubuntu'' l"
    and "\<And>l. f l = [] \<Longrightarrow> l = []"
  shows "\<not> ubuntu_region ls \<Longrightarrow> \<not> ubuntu_region (map f ls)"
proof (induction ls)
  case Nil
  then show ?case by simp
next
  case (Cons l ls)
  have "[] \<in> set ls" if "[] \<in> f ` set ls"
    using that assms(2) by (metis imageE)
  then show ?case using Cons assms(1) by auto
qed

lemma not_region_base_lines: "\<not> ubuntu_region (base_lines ls)"
  unfolding base_lines_def
proof (rule not_region_map)
  show "prefix ''FROM ubuntu'' l" if "prefix ''FROM ubuntu'' (activate l)" for l
    using that prefix_activateD [of "''FROM ubuntu''" l] by (simp add: cmd_ash_def)
  show "l = []" if "activate l = []" for l
    using that by (rule activate_eq_Nil)
  show "\<not> ubuntu_region (comment_ubuntu ls)"
    by (rule not_region_comment_ubuntu)
qed

lemma base_lines_idem: "base_lines (base_lines ls) = base_lines ls"
proof -
  have "comment_ubuntu (base_lines ls) = base_lines ls"
    using not_region_base_lines by (rule not_region_comment_ubuntu_id)
  then show ?thesis
    by (simp add: base_lines_def [of "base_lines ls"]) (simp add: base_lines_def activate_idem)
qed

text \<open>
  C2, as stated, fails: under the alpine profile the first variant writes \<^verbatim>\<open># \<close>
  before \<^verbatim>\<open>FROM ubuntu:22.04\<close> at every run, so a second run changes the output of
  the first.
\<close>

theorem second_run_prefixes_again_counterexample:
  "transform (default_args\<lparr>base := alpine\<rparr>) ''FROM ubuntu:22.04'' = ''# FROM ubuntu:22.04'' \<and>
   transform (default_args\<lparr>base := alpine\<rparr>) ''# FROM ubuntu:22.04'' = ''# # FROM ubuntu:22.04''"
  by code_simp

text \<open>
  C2, amended: the Region Toggler of the second variant, applied to its own output
  with the same profile, changes nothing, for every template and either profile;
  and so does the flag rewrite, which the two variants share.
\<close>

theorem region_toggler_idempotent:
  "configure_base_os (configure_base_os content b) b = configure_base_os content b
   \<and> set_flag (lang_name lang) e (set_flag (lang_name lang) e content)
       = set_flag (lang_name lang) e content"
proof -
  have "\<not> starts_in (flag_key lang @ ''false'') (flag_key lang @ ''true'')"
    and "\<not> starts_in (flag_key lang @ ''true'') (flag_key lang @ ''false'')"
    by (cases lang; simp add: flag_key_def)+
  then have f: "flag_step lang e (flag_step lang e content) = flag_step lang e content"
    unfolding flag_step_def
    by (cases e) (simp_all add: replace_same bool_lower_def replace_idem)
  have "configure_base_os (configure_base_os content b) b = configure_base_os content b"
  proof (cases b)
  case ubuntu
  then show ?thesis by (simp add: configure_base_os_def)
next
  case alpine
  have "on_lines base_lines (on_lines base_lines content) = on_lines (base_lines \<circ> base_lines) content"
    by (rule on_lines_on_lines) (simp add: proper_base_lines)
  then show ?thesis
    using alpine by (simp add: configure_base_os_lines comp_def base_lines_idem)
qed
  then show ?thesis
    using f by (simp add: set_flag_eq)
qed

section \<open>Toggling back, and exclusive profiles\<close>

lemma split_configure_base_os:
  "split_nl (configure_base_os c alpine) = base_lines (split_nl c)"
  by (simp add: configure_base_os_lines split_on_lines proper_base_lines)

text \<open>
  C3, as stated, fails: after the alpine profile has commented the ubuntu block,
  the ubuntu profile does not bring it back, in either variant.
\<close>

theorem round_trip_stays_commented_counterexample:
  "ubuntu_region (split_nl ubuntu_block) \<and>
   configure_base_os (configure_base_os ubuntu_block alpine) ubuntu =
     ''# FROM ubuntu:22.04'' @ [nl] @ ''# RUN apt-get update'' @ [nl] @ ''# '' \<and>
   copy_transform default_copy_args ''# FROM ubuntu:22.04''= Inr ''# FROM ubuntu:22.04'' \<and>
   transform (default_args\<lparr>base := alpine\<rparr>) ''FROM ubuntu:22.04'' = ''# FROM ubuntu:22.04'' \<and>
   transform default_args ''# FROM ubuntu:22.04'' = ''# FROM ubuntu:22.04''"
  by code_simp

text \<open>
  C3, amended: in the second variant the ubuntu profile changes nothing, so the
  alpine profile followed by the ubuntu profile gives the output of the alpine
  profile, which differs from every template that has an active ubuntu block ended
  by an empty line. What suppression writes before a line is what activation
  removes: activating a commented line that begins with the marker gives the line
  back.
\<close>

theorem toggling_is_one_way:
  "configure_base_os (configure_base_os content alpine) ubuntu = configure_base_os content alpine
   \<and> (ubuntu_region (split_nl content) \<longrightarrow>
        configure_base_os (configure_base_os content alpine) ubuntu \<noteq> content)
   \<and> (prefix marker l \<longrightarrow> uncomment_line marker (comment l) = l)"
proof -
  have "configure_base_os content alpine \<noteq> content" if "ubuntu_region (split_nl content)"
  proof
    assume "configure_base_os content alpine = content"
    then have "base_lines (split_nl content) = split_nl content"
      using split_configure_base_os [of content] by simp
    then show False
      using that not_region_base_lines [of "split_nl content"] by simp
  qed
  then show ?thesis
    by (simp add: configure_base_os_def [of _ ubuntu] uncomment_line_def comment_def)
qed

theorem toggling_is_one_way_witness:
  "ubuntu_region (split_nl ubuntu_block) \<and>
   configure_base_os (configure_base_os ubuntu_block alpine) ubuntu \<noteq> ubuntu_block \<and>
   prefix ''FROM alpine'' ''FROM alpine:latest'' \<and>
   uncomment_line ''FROM alpine'' (comment ''FROM alpine:latest'') = ''FROM alpine:latest''"
proof -
  have h: "ubuntu_region (split_nl ubuntu_block)" "prefix ''FROM alpine'' ''FROM alpine:latest''"
    by code_simp+
  show ?thesis
    using toggling_is_one_way [of ubuntu_block "''FROM alpine''" "''FROM alpine:latest''"] h
    by blast
qed

lemma comment_ubuntu_other:
  "\<forall>l \<in> set pre. \<not> prefix ''FROM ubuntu'' l \<Longrightarrow>
     comment_ubuntu (pre @ xs) = pre @ comment_ubuntu xs"
  by (induction pre) auto

lemma comment_ubuntu_block:
  assumes "prefix ''FROM ubuntu'' u" "[] \<notin> set body"
  shows "comment_ubuntu (u # body @ [] # post) = map comment (u # body @ [[]]) @ comment_ubuntu post"
proof -
  have "takeWhile (\<lambda>x. x \<noteq> []) (body @ [] # post) = body"
    using assms(2) by (induction body) auto
  moreover have "dropWhile (\<lambda>x. x \<noteq> []) (body @ [] # post) = [] # post"
    using assms(2) by (induction body) auto
  ultimately show ?thesis using assms(1) by simp
qed

lemma activate_comment:
  assumes "\<not> prefix ''FROM alpine'' l" "\<not> prefix ''RUN apk update'' l"
  shows "activate (comment l) = comment (replace cmd_bash cmd_ash l)"
proof -
  have "\<not> starts_in ''# '' cmd_bash" by (simp add: cmd_bash_def)
  then have "replace cmd_bash cmd_ash (''# '' @ l) = ''# '' @ replace cmd_bash cmd_ash l"
    by (intro replace_append_free) simp_all
  then show ?thesis
    using assms by (simp add: activate_def uncomment_line_def comment_def)
qed

lemma activate_alpine:
  assumes "prefix ''# FROM alpine'' l"
  shows "prefix ''FROM alpine'' (activate l)"
proof -
  obtain r where r: "l = ''# FROM alpine'' @ r" using assms by (auto simp: prefix_def)
  have "uncomment_line ''RUN apk update'' (uncomment_line ''FROM alpine'' l) = ''FROM alpine'' @ r"
    using r by (simp add: uncomment_line_def)
  moreover have "\<not> starts_in ''FROM alpine'' cmd_bash" by (simp add: cmd_bash_def)
  then have "replace cmd_bash cmd_ash (''FROM alpine'' @ r) = ''FROM alpine'' @ replace cmd_bash cmd_ash r"
    by (intro replace_append_free) simp_all
  ultimately show ?thesis by (simp add: activate_def)
qed

text \<open>
  C5, as stated, fails: the ubuntu profile suppresses nothing, so a template with
  both \<^verbatim>\<open>FROM\<close> lines active keeps both active, in either variant.
\<close>

theorem both_profiles_active_counterexample:
  "active ''FROM ubuntu'' (split_nl both_active) \<and> active ''FROM alpine'' (split_nl both_active) \<and>
   transform default_args both_active = both_active \<and>
   copy_transform default_copy_args both_active = Inr both_active"
  unfolding active_def by code_simp

text \<open>
  C5, amended, for the second variant: on a template whose only ubuntu block (a
  line that begins with \<^verbatim>\<open>FROM ubuntu\<close>, the lines behind it and the empty line
  that ends it) holds no alpine marker, the alpine profile writes \<^verbatim>\<open># \<close> before
  every line of the block, leaves no line that begins with \<^verbatim>\<open>FROM ubuntu\<close>, and
  activates a commented \<^verbatim>\<open>FROM alpine\<close> line outside the block; the ubuntu profile
  returns the template as it is.
\<close>

theorem alpine_choice_suppresses_ubuntu_block:
  assumes "split_nl content = pre @ u # body @ [] # post"
    and "prefix ''FROM ubuntu'' u" and "[] \<notin> set body"
    and "\<forall>l \<in> set (pre @ post). \<not> prefix ''FROM ubuntu'' l"
    and "\<forall>l \<in> set (u # body). \<not> prefix ''FROM alpine'' l \<and> \<not> prefix ''RUN apk update'' l"
  shows "split_nl (configure_base_os content alpine) =
           map activate pre @ map (\<lambda>l. comment (replace cmd_bash cmd_ash l)) (u # body @ [[]])
             @ map activate post
       \<and> \<not> active ''FROM ubuntu'' (split_nl (configure_base_os content alpine))
       \<and> (active ''# FROM alpine'' (pre @ post) \<longrightarrow>
            active ''FROM alpine'' (split_nl (configure_base_os content alpine)))
       \<and> configure_base_os content ubuntu = content"
proof -
  let ?out = "split_nl (configure_base_os content alpine)"
  have "\<not> ubuntu_region post"
    using assms(4) by (induction post) auto
  then have "comment_ubuntu (split_nl content) = pre @ map comment (u # body @ [[]]) @ post"
    using assms(1,2,3,4)
    by (simp add: comment_ubuntu_other comment_ubuntu_block not_region_comment_ubuntu_id
        del: comment_ubuntu.simps)
  moreover have "map activate (map comment (u # body @ [[]]))
      = map (\<lambda>l. comment (replace cmd_bash cmd_ash l)) (u # body @ [[]])"
    using assms(5) by (auto simp: activate_comment)
  moreover have "?out = map activate (comment_ubuntu (split_nl content))"
    by (simp add: split_configure_base_os base_lines_def)
  ultimately have s: "?out = map activate pre
      @ map (\<lambda>l. comment (replace cmd_bash cmd_ash l)) (u # body @ [[]]) @ map activate post"
    by (simp only: map_append)
  have other: "\<not> prefix ''FROM ubuntu'' (activate l)" if "l \<in> set (pre @ post)" for l
    using that assms(4) prefix_activateD [of "''FROM ubuntu''" l] by (auto simp: cmd_ash_def)
  have 1: "\<not> active ''FROM ubuntu'' ?out"
    unfolding s active_def using other by (auto simp: comment_def)
  have 2: "active ''FROM alpine'' ?out" if "active ''# FROM alpine'' (pre @ post)"
    using that activate_alpine unfolding s active_def by fastforce
  show ?thesis
    using s 1 2 by (simp add: configure_base_os_def)
qed


theorem alpine_choice_suppresses_ubuntu_block_witness:
  "split_nl both_blocks =
     [] @ ''FROM ubuntu:22.04'' # [''RUN apt-get update''] @ [] #
       [''# FROM alpine:latest'', ''# RUN apk update''] \<and>
   split_nl (configure_base_os both_blocks alpine) =
     [''# FROM ubuntu:22.04'', ''# RUN apt-get update'', ''# '', ''FROM alpine:latest'',
      ''RUN apk update''] \<and>
   \<not> active ''FROM ubuntu'' (split_nl (configure_base_os both_blocks alpine)) \<and>
   active ''FROM alpine'' (split_nl (configure_base_os both_blocks alpine))"
proof -
  have h: "split_nl both_blocks =
     [] @ ''FROM ubuntu:22.04'' # [''RUN apt-get update''] @ [] #
       [''# FROM alpine:latest'', ''# RUN apk update'']"
    "prefix ''FROM ubuntu'' ''FROM ubuntu:22.04''" "[] \<notin> set [''RUN apt-get update'']"
    by code_simp+
  have h4: "\<forall>l \<in> set ([] @ [''# FROM alpine:latest'', ''# RUN apk update'']).
      \<not> prefix ''FROM ubuntu'' l"
    and h5: "\<forall>l \<in> set [''FROM ubuntu:22.04'', ''RUN apt-get update''].
      \<not> prefix ''FROM alpine'' l \<and> \<not> prefix ''RUN apk update'' l"
    and a: "active ''# FROM alpine'' ([] @ [''# FROM alpine:latest'', ''# RUN apk update''])"
    by (simp_all add: active_def)
  have c: "split_nl (configure_base_os both_blocks alpine) =
     [''# FROM ubuntu:22.04'', ''# RUN apt-get update'', ''# '', ''FROM alpine:latest'',
      ''RUN apk update'']"
    by code_simp
  have "\<not> active ''FROM ubuntu'' (split_nl (configure_base_os both_blocks alpine)) \<and>
      active ''FROM alpine'' (split_nl (configure_base_os both_blocks alpine))"
    using alpine_choice_suppresses_ubuntu_block [OF h(1,2,3) h4 h5] a by blast
  then show ?thesis
    using h(1) c by blast
qed

section \<open>The order of the components\<close>

subsection \<open>First variant\<close>

lemma flag_flag_free:
  "X \<noteq> Y \<Longrightarrow> \<not> starts_in (flag_key X @ bool_lower b) (flag_key Y @ bool_lower b')"
  by (cases X; cases Y; cases b; cases b'; simp add: flag_key_def bool_lower_def)

lemma flag_lit_version_free:
  "\<not> starts_in (flag_key lang @ bool_lower b) (default_assignment va)"
  "\<not> starts_in (default_assignment va) (flag_key lang @ bool_lower b)"
  "CHR ''A'' \<notin> set v \<Longrightarrow> \<not> starts_in (version_key va @ v) (flag_key lang @ bool_lower b)"
  "\<not> starts_in (flag_key lang @ bool_lower b) (version_key va @ v)"
  by (cases lang; cases va; cases b;
      simp add: flag_key_def version_key_def bool_lower_def not_starts_in_hd)+

lemma version_version_free:
  "va \<noteq> va' \<Longrightarrow> \<not> starts_in (default_assignment va) (default_assignment va')"
  "va \<noteq> va' \<Longrightarrow> CHR ''A'' \<notin> set v \<Longrightarrow>
     \<not> starts_in (version_key va @ v) (default_assignment va')"
  "va \<noteq> va' \<Longrightarrow> \<not> starts_in (default_assignment va) (version_key va' @ v)"
  by (cases va; cases va'; simp add: version_key_def not_starts_in_hd)+

lemma flag_flag_commute:
  assumes "X \<noteq> Y"
  shows "flag_step X False (flag_step Y False c) = flag_step Y False (flag_step X False c)"
proof -
  have t: "''true'' = bool_lower True" "''false'' = bool_lower False"
    by (simp_all add: bool_lower_def)
  show ?thesis
    unfolding flag_step_def t
    using assms by (intro replace_commute flag_flag_free) simp_all
qed

lemma flag_version_commute:
  assumes "CHR ''A'' \<notin> set v"
  shows "flag_step X False (replace (default_assignment va) (version_key va @ v) c)
       = replace (default_assignment va) (version_key va @ v) (flag_step X False c)"
proof -
  have t: "''true'' = bool_lower True" "''false'' = bool_lower False"
    by (simp_all add: bool_lower_def)
  show ?thesis
    unfolding flag_step_def t
    using assms by (intro replace_commute flag_lit_version_free) simp_all
qed

lemma version_version_commute:
  assumes "va \<noteq> va'" "CHR ''A'' \<notin> set v" "CHR ''A'' \<notin> set v'"
  shows "replace (default_assignment va) (version_key va @ v)
           (replace (default_assignment va') (version_key va' @ v') c)
       = replace (default_assignment va') (version_key va' @ v')
           (replace (default_assignment va) (version_key va @ v) c)"
  using assms by (intro replace_commute version_version_free) simp_all

lemma version_arg_of_inj:
  "version_arg_of X = Some va \<Longrightarrow> version_arg_of Y = Some va \<Longrightarrow> X = Y"
  by (cases X; cases Y) simp_all

lemma configure_commute:
  assumes "X \<noteq> Y" "CHR ''A'' \<notin> set (version a X)" "CHR ''A'' \<notin> set (version a Y)"
  shows "configure a X (configure a Y c) = configure a Y (configure a X c)"
proof -
  have n: "va \<noteq> va'" if "version_arg_of X = Some va" "version_arg_of Y = Some va'" for va va'
    using that assms(1) version_arg_of_inj by blast
  show ?thesis
    using assms n
    by (auto simp: configure_eq flag_flag_commute flag_version_commute version_version_commute
        split: option.splits)
qed

end
